theory Spec2Isabelle
  imports Main "HOL-Library.AList" "HOL-Library.Sublist"
begin

section \<open>The GitHub index of the content server: a model of \<^verbatim>\<open>bananas_server/index/github.py\<close>\<close>

text \<open>
  The module keeps a local folder in step with a branch of a remote git repository.
  Its class \<^verbatim>\<open>Index\<close> opens (or initialises) a repository at the folder, points the
  remote \<^verbatim>\<open>origin\<close> at the configured URL, and on every \<^verbatim>\<open>reload\<close> fetches, checks the
  branch out by force, unlinks the untracked files and removes the empty folders.

  Everything the Python code does to the outside is made a change of an explicit
  \<open>world\<close>: the module-level variables, the folder on disk, the repository in it, the
  remote side, the environment of the git command object and a trace of the network
  operations. A Python exception is a value \<open>Inl e\<close>; a method is a function from the
  world to a result and the world it leaves behind.
\<close>

subsection \<open>Strings and paths\<close>

text \<open>\<^verbatim>\<open>str.startswith\<close>.\<close>

definition startswith :: "string \<Rightarrow> string \<Rightarrow> bool" where
  "startswith s pre = (take (length pre) s = pre)"

text \<open>
  \<^verbatim>\<open>os.path.join\<close> of two components on POSIX: a second component that starts with a
  slash replaces the first, an empty first component or one that ends with a slash takes
  no further slash.
\<close>

definition join :: "string \<Rightarrow> string \<Rightarrow> string" where
  "join a b =
     (if b \<noteq> [] \<and> hd b = CHR ''/'' then b
      else if a = [] \<or> last a = CHR ''/'' then a @ b
      else a @ ''/'' @ b)"

subsection \<open>The folder on disk\<close>

text \<open>
  A directory is the list of its entries in the order \<^verbatim>\<open>os.scandir\<close> reports them; an
  entry is a file with its content or a directory. The metadata directory \<^verbatim>\<open>.git\<close> is an
  entry of the folder like any other. A path inside the folder is the list of its
  components.
\<close>

datatype node = File string | Dir "(string \<times> node) list"

type_synonym entries = "(string \<times> node) list"

type_synonym path = "string list"

fun is_dir :: "node \<Rightarrow> bool" where
  "is_dir (Dir _) = True"
| "is_dir (File _) = False"

text \<open>The node at a path, if there is one.\<close>

fun lookup :: "entries \<Rightarrow> path \<Rightarrow> node option" where
  "lookup es [] = None"
| "lookup es (n # p) =
     (case map_of es n of
        None \<Rightarrow> None
      | Some nd \<Rightarrow>
          if p = [] then Some nd
          else (case nd of Dir sub \<Rightarrow> lookup sub p | File c \<Rightarrow> None))"

text \<open>The paths of all files below a directory, in scan order.\<close>

fun files_of :: "entries \<Rightarrow> path list" where
  "files_of [] = []"
| "files_of ((n, File c) # es) = [n] # files_of es"
| "files_of ((n, Dir sub) # es) = map ((#) n) (files_of sub) @ files_of es"

text \<open>The paths of all directories below a directory that have no entry.\<close>

fun empty_dirs :: "entries \<Rightarrow> path list" where
  "empty_dirs [] = []"
| "empty_dirs ((n, File c) # es) = empty_dirs es"
| "empty_dirs ((n, Dir sub) # es) =
     (if sub = [] then [[n]] else map ((#) n) (empty_dirs sub)) @ empty_dirs es"

fun count_dirs :: "entries \<Rightarrow> nat" where
  "count_dirs [] = 0"
| "count_dirs ((n, File c) # es) = count_dirs es"
| "count_dirs ((n, Dir sub) # es) = Suc (count_dirs sub + count_dirs es)"

text \<open>No directory lists a name twice.\<close>

fun wf_entries :: "entries \<Rightarrow> bool" where
  "wf_entries [] = True"
| "wf_entries ((n, File c) # es) = (n \<notin> set (map fst es) \<and> wf_entries es)"
| "wf_entries ((n, Dir sub) # es) = (n \<notin> set (map fst es) \<and> wf_entries sub \<and> wf_entries es)"

subsection \<open>Exceptions\<close>

datatype exn =
    NoSuchPathError
  | InvalidGitRepositoryError
  | BadName
  | GitCommandError
  | IndexError
  | AttributeError
  | FileNotFoundError
  | IsADirectoryError
  | NotADirectoryError
  | Binascii_Error
  | OtherError string

subsection \<open>The repository and the world\<close>

text \<open>
  What the version-control toolchain knows about the repository in the folder: the
  remotes with their URLs, the remote-tracking references of \<^verbatim>\<open>origin\<close> (branch name to
  the tree of its head commit), the local branches, the branch that is checked out, and
  the tracked files (the index). The tree of a commit is the list of its files with their
  contents. This knowledge is kept beside the entries of the folder: the files below
  \<^verbatim>\<open>.git\<close> that store it are not interpreted, and the operations of the toolchain
  change the knowledge, not those files.
\<close>

type_synonym manifest = "(path \<times> string) list"

record repo =
  remotes :: "string \<rightharpoonup> string"
  refs :: "string \<rightharpoonup> manifest"
  heads :: "string \<rightharpoonup> manifest"
  head :: "string option"
  tracked :: manifest

text \<open>
  What is at the path of the index folder: nothing, or a directory, which holds a
  repository or does not.
\<close>

datatype path_state = NoSuchPath | Folder entries "repo option"

text \<open>
  A network operation that was attempted: a fetch from a URL with the value of
  \<^verbatim>\<open>GIT_SSH_COMMAND\<close> in the environment of the git command at that moment, and the
  checkout of a branch.
\<close>

datatype event = Fetch string "string option" | Checkout string

text \<open>
  The world. \<open>github_branch\<close>, \<open>github_private_key\<close> and \<open>github_url\<close> are the module-level
  variables (lines 14 to 16) once the command-line handler has set them. \<open>template\<close> is
  what \<^verbatim>\<open>git init\<close> puts below a new \<^verbatim>\<open>.git\<close>. \<open>environment\<close> is the environment of the git
  command object of the repository handle. \<open>upstream\<close> gives, for a URL, the branches of
  the repository there. \<open>net\<close> says how the coming fetch attempts end, one entry per
  attempt: with an exception, or well (also when the list is used up). \<open>tmp_name\<close> is the
  name the next temporary file gets; \<open>tempfiles\<close> are the temporary files with their
  contents.
\<close>

record world =
  github_branch :: string
  github_private_key :: "string option"
  github_url :: string
  disk :: path_state
  template :: entries
  environment :: "string \<rightharpoonup> string"
  upstream :: "string \<Rightarrow> string \<rightharpoonup> manifest"
  net :: "exn option list"
  trace :: "event list"
  tmp_name :: string
  tempfiles :: "(string \<times> string) list"

text \<open>
  The object: \<open>folder\<close> is \<^verbatim>\<open>self._folder\<close>, which the base class \<^verbatim>\<open>LocalIndex\<close> sets (its
  module is not part of the sources, the folder is a parameter of the constructor here);
  \<open>ssh_command\<close> is \<^verbatim>\<open>self._ssh_command\<close>; \<open>github_private_key_file\<close> is the name of
  \<^verbatim>\<open>self._github_private_key_file\<close>. The handle \<^verbatim>\<open>self._git\<close> refers to the repository in the
  world's folder.
\<close>

record Index =
  folder :: string
  ssh_command :: "string option"
  github_private_key_file :: "string option"

subsection \<open>The command-line handler (lines 111 to 117)\<close>

text \<open>
  \<^verbatim>\<open>click_index_github\<close> stores the URL and the branch, and the decoded key if one was
  given: the test of line 116 is Python's truth value, which is false for \<^verbatim>\<open>None\<close> and for
  the empty string. \<^verbatim>\<open>base64.b64decode\<close> is a parameter; it may raise.
\<close>

definition click_index_github ::
  "(string \<Rightarrow> exn + string) \<Rightarrow> string \<Rightarrow> string \<Rightarrow> string option \<Rightarrow> world \<Rightarrow> (exn + unit) \<times> world" where
  "click_index_github b64decode index_github_url index_github_branch index_github_private_key w =
     (let w1 = w\<lparr>github_url := index_github_url, github_branch := index_github_branch\<rparr>
      in case index_github_private_key of
           None \<Rightarrow> (Inr (), w1)
         | Some k \<Rightarrow>
             if k = [] then (Inr (), w1)
             else (case b64decode k of
                     Inl e \<Rightarrow> (Inl e, w1)
                   | Inr key \<Rightarrow> (Inr (), w1\<lparr>github_private_key := Some key\<rparr>)))"

subsection \<open>The constructor (lines 20 to 46)\<close>

text \<open>
  Lines 25 to 32: the test of line 25 is Python's truth value again. A key that is set and
  not empty is written to a new temporary file, and the ssh command names that file;
  otherwise there is no ssh command.
\<close>

definition write_private_key :: "world \<Rightarrow> (string option \<times> string option) \<times> world" where
  "write_private_key w =
     (case github_private_key w of
        None \<Rightarrow> ((None, None), w)
      | Some key \<Rightarrow>
          if key = [] then ((None, None), w)
          else ((Some (tmp_name w), Some (''ssh -i '' @ tmp_name w)),
                w\<lparr>tempfiles := (tmp_name w, key) # tempfiles w\<rparr>))"

text \<open>
  Modelled from the spec: \<^verbatim>\<open>git.Repo(path)\<close> of the version-control library, which is not
  part of the sources. It raises \<^verbatim>\<open>NoSuchPathError\<close> when nothing is at the path ("path does
  not exist"), and \<^verbatim>\<open>InvalidGitRepositoryError\<close> when the directory there holds no
  repository ("path exists but is not a repository").
\<close>

definition Repo_open :: "path_state \<Rightarrow> exn + repo" where
  "Repo_open d =
     (case d of
        NoSuchPath \<Rightarrow> Inl NoSuchPathError
      | Folder es None \<Rightarrow> Inl InvalidGitRepositoryError
      | Folder es (Some g) \<Rightarrow> Inr g)"

definition empty_repo :: repo where
  "empty_repo = \<lparr>remotes = Map.empty, refs = Map.empty, heads = Map.empty, head = None, tracked = []\<rparr>"

text \<open>
  Modelled from the spec: \<^verbatim>\<open>git.Repo.init(path)\<close> of the library ("initialize a new empty
  one"). It makes the directory if it is missing and puts a new, empty repository into
  it; the entries that are there stay. A repository that is there already is left as it
  is.
\<close>

definition Repo_init :: "entries \<Rightarrow> path_state \<Rightarrow> path_state" where
  "Repo_init tmpl d =
     (case d of
        NoSuchPath \<Rightarrow> Folder [(''.git'', Dir tmpl)] (Some empty_repo)
      | Folder es None \<Rightarrow> Folder (AList.update ''.git'' (Dir tmpl) es) (Some empty_repo)
      | Folder es (Some g) \<Rightarrow> d)"

text \<open>
  Lines 34 to 39: open the repository; on either of the two exceptions initialise one.
  The new handle has a git command object with an environment of its own, which is empty.
\<close>

definition open_or_init :: "world \<Rightarrow> (exn + unit) \<times> world" where
  "open_or_init w =
     (case Repo_open (disk w) of
        Inr g \<Rightarrow> (Inr (), w\<lparr>environment := Map.empty\<rparr>)
      | Inl NoSuchPathError \<Rightarrow>
          (Inr (), w\<lparr>disk := Repo_init (template w) (disk w), environment := Map.empty\<rparr>)
      | Inl InvalidGitRepositoryError \<Rightarrow>
          (Inr (), w\<lparr>disk := Repo_init (template w) (disk w), environment := Map.empty\<rparr>)
      | Inl e \<Rightarrow> (Inl e, w))"

text \<open>
  Lines 42 to 46: create the remote \<^verbatim>\<open>origin\<close> if there is none, then set its URL if it
  differs from the configured one.
\<close>

definition ensure_origin :: "world \<Rightarrow> (exn + unit) \<times> world" where
  "ensure_origin w =
     (case disk w of
        Folder es (Some g) \<Rightarrow>
          (let g1 = (if remotes g ''origin'' = None
                     then g\<lparr>remotes := (remotes g)(''origin'' \<mapsto> github_url w)\<rparr>
                     else g)
           in case remotes g1 ''origin'' of
                None \<Rightarrow> (Inl AttributeError, w\<lparr>disk := Folder es (Some g1)\<rparr>)
              | Some url \<Rightarrow>
                  if url \<noteq> github_url w
                  then (Inr (), w\<lparr>disk := Folder es (Some (g1\<lparr>remotes := (remotes g1)(''origin'' \<mapsto> github_url w)\<rparr>))\<rparr>)
                  else (Inr (), w\<lparr>disk := Folder es (Some g1)\<rparr>))
      | _ \<Rightarrow> (Inl GitCommandError, w))"

definition Index_init :: "string \<Rightarrow> world \<Rightarrow> (exn + Index) \<times> world" where
  "Index_init base_folder w =
     (case write_private_key w of
        ((key_file, ssh), w1) \<Rightarrow>
          (case open_or_init w1 of
             (Inl e, w2) \<Rightarrow> (Inl e, w2)
           | (Inr _, w2) \<Rightarrow>
               (case ensure_origin w2 of
                  (Inl e, w3) \<Rightarrow> (Inl e, w3)
                | (Inr _, w3) \<Rightarrow>
                    (Inr \<lparr>folder = base_folder, ssh_command = ssh, github_private_key_file = key_file\<rparr>,
                     w3))))"

subsection \<open>Removing empty folders (lines 48 to 58)\<close>

text \<open>
  \<^verbatim>\<open>os.walk(top, topdown=False)\<close> is a generator: it scans a directory, which fixes the
  names of its folders and files, walks into each folder in turn, and only then yields
  the directory with the names it found at the scan. The body of the loop of
  \<^verbatim>\<open>_remove_empty_folders\<close> runs at every yield, between the steps of the walk, so the two
  are one recursion here: \<open>walk_remove root es removed\<close> is the walk of the directory
  \<open>root\<close> with entries \<open>es\<close>, it returns the entries that are left (\<open>None\<close> when
  \<^verbatim>\<open>os.rmdir(root)\<close> removed the directory) and the variable \<^verbatim>\<open>removed\<close>. \<open>walk_children\<close>
  walks into the folders of a directory, one after the other.
\<close>

fun walk_remove :: "string \<Rightarrow> entries \<Rightarrow> bool \<Rightarrow> entries option \<times> bool"
  and walk_children :: "string \<Rightarrow> entries \<Rightarrow> bool \<Rightarrow> entries \<times> bool" where
  "walk_remove root es removed =
     (let folders = map fst (filter (\<lambda>e. is_dir (snd e)) es);
          files = map fst (filter (\<lambda>e. \<not> is_dir (snd e)) es);
          (es', removed') = walk_children root es removed
      in if startswith root ''.git'' then (Some es', removed')
         else if folders = [] \<and> files = [] then (None, True)
         else (Some es', removed'))"
| "walk_children root [] removed = ([], removed)"
| "walk_children root ((name, File c) # es) removed =
     (let (es', removed') = walk_children root es removed
      in ((name, File c) # es', removed'))"
| "walk_children root ((name, Dir sub) # es) removed =
     (case walk_remove (join root name) sub removed of
        (None, removed1) \<Rightarrow> walk_children root es removed1
      | (Some sub', removed1) \<Rightarrow>
          (let (es', removed') = walk_children root es removed1
           in ((name, Dir sub') # es', removed')))"

declare walk_remove.simps [simp del]

text \<open>
  \<^verbatim>\<open>_remove_empty_folders(parent_folder)\<close>. \<^verbatim>\<open>os.walk\<close> yields nothing for a path that cannot
  be scanned: a folder that is not there, or the empty path.
\<close>

definition remove_empty_folders :: "string \<Rightarrow> path_state \<Rightarrow> path_state \<times> bool" where
  "remove_empty_folders parent_folder d =
     (case d of
        NoSuchPath \<Rightarrow> (NoSuchPath, False)
      | Folder es g \<Rightarrow>
          if parent_folder = [] then (Folder es g, False)
          else (case walk_remove parent_folder es False of
                  (None, removed) \<Rightarrow> (NoSuchPath, removed)
                | (Some es', removed) \<Rightarrow> (Folder es' g, removed)))"

text \<open>
  Lines 82 and 83: \<^verbatim>\<open>while self._remove_empty_folders(self._folder): pass\<close>. A loop that
  does not end has the value \<open>None\<close>.
\<close>

partial_function (option) remove_empty_folders_loop :: "string \<Rightarrow> path_state \<Rightarrow> path_state option" where
  "remove_empty_folders_loop parent_folder d =
     (case remove_empty_folders parent_folder d of
        (d', removed) \<Rightarrow> if removed then remove_empty_folders_loop parent_folder d' else Some d')"

declare remove_empty_folders_loop.simps [code]

fun count_state :: "path_state \<Rightarrow> nat" where
  "count_state NoSuchPath = 0"
| "count_state (Folder es g) = Suc (count_dirs es)"

text \<open>The entries of the folder, if it is there.\<close>

fun folder_entries :: "path_state \<Rightarrow> entries option" where
  "folder_entries NoSuchPath = None"
| "folder_entries (Folder es g) = Some es"

subsection \<open>The toolchain: environment, fetch, checkout, status\<close>

text \<open>
  The operations of the version-control library and of Python's \<^verbatim>\<open>os\<close> module are not code
  of the module. They are defined here after their documented behaviour and after what
  the specification says of them, on the folder and the repository of the world.

  Modelled from the spec: the environment override of the library ("passed as an
  environment override to every subsequent network operation"). \<^verbatim>\<open>Git.update_environment\<close>
  for one keyword argument: a value is set, \<^verbatim>\<open>None\<close> deletes the variable; the old binding
  is returned where one was changed. \<^verbatim>\<open>Git.custom_environment\<close> is the context manager
  around it: the environment is changed for the body and put back afterwards, however the
  body ends.
\<close>

definition update_environment ::
  "string \<Rightarrow> string option \<Rightarrow> (string \<rightharpoonup> string) \<Rightarrow> (string \<times> string option) list \<times> (string \<rightharpoonup> string)" where
  "update_environment key val env =
     (case val of
        Some v \<Rightarrow> ([(key, env key)], env(key \<mapsto> v))
      | None \<Rightarrow>
          (case env key of
             Some old \<Rightarrow> ([(key, Some old)], env(key := None))
           | None \<Rightarrow> ([], env)))"

definition custom_environment ::
  "string \<Rightarrow> string option \<Rightarrow> (world \<Rightarrow> 'a \<times> world) \<Rightarrow> world \<Rightarrow> 'a \<times> world" where
  "custom_environment key val body w =
     (case update_environment key val (environment w) of
        (old_env, env1) \<Rightarrow>
          (case body (w\<lparr>environment := env1\<rparr>) of
             (r, w1) \<Rightarrow>
               (r, w1\<lparr>environment :=
                        fold (\<lambda>(k, v) env. snd (update_environment k v env)) old_env (environment w1)\<rparr>)))"

text \<open>
  Modelled from the spec: \<^verbatim>\<open>origin.fetch()\<close> of the library ("network fetch from origin",
  which "may fail"). One attempt, recorded in the trace with the ssh command of the
  environment. The attempt ends as the head of \<open>net\<close> says; when it ends well the
  remote-tracking references take the branches of the repository at the URL.
\<close>

fun next_outcome :: "exn option list \<Rightarrow> exn option" where
  "next_outcome [] = None"
| "next_outcome (x # rest) = x"

definition origin_fetch :: "world \<Rightarrow> (exn + unit) \<times> world" where
  "origin_fetch w =
     (case disk w of
        Folder es (Some g) \<Rightarrow>
          (case remotes g ''origin'' of
             None \<Rightarrow> (Inl GitCommandError, w)
           | Some url \<Rightarrow>
               (let w1 = w\<lparr>trace := trace w @ [Fetch url (environment w ''GIT_SSH_COMMAND'')],
                           net := tl (net w)\<rparr>
                in case next_outcome (net w) of
                     Some e \<Rightarrow> (Inl e, w1)
                   | None \<Rightarrow>
                       (Inr (),
                        w1\<lparr>disk := Folder es (Some (g\<lparr>refs := refs g ++ upstream w url\<rparr>))\<rparr>)))
      | _ \<Rightarrow> (Inl GitCommandError, w))"

text \<open>Lines 68 to 73: the fetch, and once more after a \<^verbatim>\<open>BadName\<close>.\<close>

definition fetch_retry :: "world \<Rightarrow> (exn + unit) \<times> world" where
  "fetch_retry w =
     (case origin_fetch w of
        (Inl BadName, w1) \<Rightarrow> origin_fetch w1
      | (Inl e, w1) \<Rightarrow> (Inl e, w1)
      | (Inr u, w1) \<Rightarrow> (Inr u, w1))"

text \<open>
  Modelled from the spec: what a forced checkout does to the files ("discarding any local
  commits or working-tree modifications under version control"). A file of the tree is
  written, also over what is in its way.
\<close>

fun write_file :: "path \<Rightarrow> string \<Rightarrow> entries \<Rightarrow> entries" where
  "write_file [] c es = es"
| "write_file (n # p) c es =
     (if p = [] then AList.update n (File c) es
      else AList.update n
             (Dir (write_file p c (case map_of es n of Some (Dir sub) \<Rightarrow> sub | _ \<Rightarrow> []))) es)"

text \<open>A file that was tracked and is no longer part of the tree is deleted if it is there.\<close>

fun remove_file :: "path \<Rightarrow> entries \<Rightarrow> entries" where
  "remove_file [] es = es"
| "remove_file (n # p) es =
     (case map_of es n of
        None \<Rightarrow> es
      | Some (File c) \<Rightarrow> if p = [] then AList.delete n es else es
      | Some (Dir sub) \<Rightarrow> if p = [] then es else AList.update n (Dir (remove_file p sub)) es)"

text \<open>
  Modelled from the spec: line 75, \<^verbatim>\<open>origin.refs[branch].checkout(force=True, B=branch)\<close>
  of the library ("forcibly check out the target branch from the remote's reference,
  overwriting any local branch of the same name"). The reference \<^verbatim>\<open>origin/branch\<close> must
  exist (\<^verbatim>\<open>IndexError\<close> otherwise); the local branch is created or reset to it and checked
  out; tracked files that the tree no longer has are deleted, the files of the tree are
  written, and the tree becomes the index.
\<close>

definition checkout :: "string \<Rightarrow> world \<Rightarrow> (exn + unit) \<times> world" where
  "checkout branch w =
     (case disk w of
        Folder es (Some g) \<Rightarrow>
          (case refs g branch of
             None \<Rightarrow> (Inl IndexError, w)
           | Some target \<Rightarrow>
               (let stale = filter (\<lambda>p. p \<notin> set (map fst target)) (map fst (tracked g));
                    es1 = fold remove_file stale es;
                    es2 = fold (\<lambda>(p, c). write_file p c) target es1
                in (Inr (),
                    w\<lparr>disk := Folder es2 (Some (g\<lparr>heads := (heads g)(branch \<mapsto> target),
                                                   head := Some branch, tracked := target\<rparr>)),
                      trace := trace w @ [Checkout branch]\<rparr>)))
      | _ \<Rightarrow> (Inl GitCommandError, w))"

text \<open>
  Modelled from the spec: \<^verbatim>\<open>Repo.untracked_files\<close> of the library ("a file present in the
  working tree that version control does not consider part of the committed history").
  The files of the working tree, which is the folder without \<^verbatim>\<open>.git\<close>, that are not
  tracked. The names are the paths relative to the folder, here as lists of components.
\<close>

definition untracked_files :: "world \<Rightarrow> exn + path list" where
  "untracked_files w =
     (case disk w of
        Folder es (Some g) \<Rightarrow>
          Inr (filter (\<lambda>p. p \<notin> set (map fst (tracked g)))
                 (files_of (filter (\<lambda>e. fst e \<noteq> ''.git'') es)))
      | _ \<Rightarrow> Inl GitCommandError)"

text \<open>
  \<^verbatim>\<open>os.unlink\<close> of Python's library removes a file and raises for anything else.
\<close>

fun unlink :: "path \<Rightarrow> entries \<Rightarrow> exn + entries" where
  "unlink [] es = Inl IsADirectoryError"
| "unlink (n # p) es =
     (case map_of es n of
        None \<Rightarrow> Inl FileNotFoundError
      | Some (File c) \<Rightarrow> if p = [] then Inr (AList.delete n es) else Inl NotADirectoryError
      | Some (Dir sub) \<Rightarrow>
          if p = [] then Inl IsADirectoryError
          else (case unlink p sub of
                  Inl e \<Rightarrow> Inl e
                | Inr sub' \<Rightarrow> Inr (AList.update n (Dir sub') es)))"

text \<open>
  Line 77, \<^verbatim>\<open>os.unlink(f"{self._folder}/{file_name}")\<close>: the name is resolved below the
  folder. With an empty folder name the path is \<^verbatim>\<open>/file_name\<close>, which is not in the folder.
\<close>

definition os_unlink :: "string \<Rightarrow> path \<Rightarrow> world \<Rightarrow> (exn + unit) \<times> world" where
  "os_unlink folder_name file_name w =
     (if folder_name = [] then (Inl FileNotFoundError, w)
      else (case disk w of
              NoSuchPath \<Rightarrow> (Inl FileNotFoundError, w)
            | Folder es g \<Rightarrow>
                (case unlink file_name es of
                   Inl e \<Rightarrow> (Inl e, w)
                 | Inr es' \<Rightarrow> (Inr (), w\<lparr>disk := Folder es' g\<rparr>))))"

text \<open>Lines 76 and 77: the loop over the untracked files.\<close>

fun unlink_all :: "string \<Rightarrow> path list \<Rightarrow> world \<Rightarrow> (exn + unit) \<times> world" where
  "unlink_all folder_name [] w = (Inr (), w)"
| "unlink_all folder_name (file_name # rest) w =
     (case os_unlink folder_name file_name w of
        (Inl e, w1) \<Rightarrow> (Inl e, w1)
      | (Inr _, w1) \<Rightarrow> unlink_all folder_name rest w1)"

subsection \<open>Refresh and reload (lines 60 to 87)\<close>

text \<open>
  \<^verbatim>\<open>_fetch_latest(branch)\<close>: look \<^verbatim>\<open>origin\<close> up (\<^verbatim>\<open>AttributeError\<close> if there is none), fetch
  under the ssh command, check the branch out, unlink the untracked files, and remove
  empty folders until a pass removes none.
\<close>

definition fetch_latest :: "Index \<Rightarrow> string \<Rightarrow> world \<Rightarrow> ((exn + unit) \<times> world) option" where
  "fetch_latest self branch w =
     (case disk w of
        Folder es (Some g) \<Rightarrow>
          (case remotes g ''origin'' of
             None \<Rightarrow> Some (Inl AttributeError, w)
           | Some url \<Rightarrow>
               (case custom_environment ''GIT_SSH_COMMAND'' (ssh_command self) fetch_retry w of
                  (Inl e, w1) \<Rightarrow> Some (Inl e, w1)
                | (Inr _, w1) \<Rightarrow>
                    (case checkout branch w1 of
                       (Inl e, w2) \<Rightarrow> Some (Inl e, w2)
                     | (Inr _, w2) \<Rightarrow>
                         (case untracked_files w2 of
                            Inl e \<Rightarrow> Some (Inl e, w2)
                          | Inr names \<Rightarrow>
                              (case unlink_all (folder self) names w2 of
                                 (Inl e, w3) \<Rightarrow> Some (Inl e, w3)
                               | (Inr _, w3) \<Rightarrow>
                                   (case remove_empty_folders_loop (folder self) (disk w3) of
                                      None \<Rightarrow> None
                                    | Some d \<Rightarrow> Some (Inr (), w3\<lparr>disk := d\<rparr>)))))))
      | _ \<Rightarrow> Some (Inl GitCommandError, w))"

text \<open>
  \<^verbatim>\<open>reload(application)\<close>: refresh with the branch that the module-level variable holds
  now, then the reload of the base class, which is a parameter.
\<close>

definition reload ::
  "(Index \<Rightarrow> 'app \<Rightarrow> world \<Rightarrow> (exn + 'res) \<times> world) \<Rightarrow> Index \<Rightarrow> 'app \<Rightarrow> world
     \<Rightarrow> ((exn + 'res) \<times> world) option" where
  "reload base_reload self application w =
     (case fetch_latest self (github_branch w) w of
        None \<Rightarrow> None
      | Some (Inl e, w1) \<Rightarrow> Some (Inl e, w1)
      | Some (Inr _, w1) \<Rightarrow> Some (base_reload self application w1))"

subsection \<open>Auxiliary definitions for the proofs\<close>

text \<open>
  The fetch of lines 67 to 73 in closed form, for a repository \<open>g\<close> in a folder with
  entries \<open>es\<close> whose remote \<open>origin\<close> has the URL \<open>url\<close>, under the ssh command \<open>v\<close>: one
  attempt, or two when the first ends with \<^verbatim>\<open>BadName\<close>. That the code computes this is the
  lemma \<open>fetch_phase\<close> below.
\<close>

definition fetched :: "string \<Rightarrow> string option \<Rightarrow> entries \<Rightarrow> repo \<Rightarrow> world \<Rightarrow> (exn + unit) \<times> world" where
  "fetched url v es g w =
     (case next_outcome (net w) of
        None \<Rightarrow>
          (Inr (), w\<lparr>trace := trace w @ [Fetch url v], net := tl (net w),
                     disk := Folder es (Some (g\<lparr>refs := refs g ++ upstream w url\<rparr>))\<rparr>)
      | Some e \<Rightarrow>
          if e = BadName then
            (case next_outcome (tl (net w)) of
               Some e2 \<Rightarrow>
                 (Inl e2, w\<lparr>trace := trace w @ [Fetch url v, Fetch url v], net := tl (tl (net w))\<rparr>)
             | None \<Rightarrow>
                 (Inr (), w\<lparr>trace := trace w @ [Fetch url v, Fetch url v], net := tl (tl (net w)),
                            disk := Folder es (Some (g\<lparr>refs := refs g ++ upstream w url\<rparr>))\<rparr>))
          else (Inl e, w\<lparr>trace := trace w @ [Fetch url v], net := tl (net w)\<rparr>))"

text \<open>Lines 75 to 83 of \<^verbatim>\<open>_fetch_latest\<close>: what follows the fetch.\<close>

definition after_fetch :: "Index \<Rightarrow> string \<Rightarrow> world \<Rightarrow> ((exn + unit) \<times> world) option" where
  "after_fetch self branch w1 =
     (case checkout branch w1 of
        (Inl e, w2) \<Rightarrow> Some (Inl e, w2)
      | (Inr _, w2) \<Rightarrow>
          (case untracked_files w2 of
             Inl e \<Rightarrow> Some (Inl e, w2)
           | Inr names \<Rightarrow>
               (case unlink_all (folder self) names w2 of
                  (Inl e, w3) \<Rightarrow> Some (Inl e, w3)
                | (Inr _, w3) \<Rightarrow>
                    (case remove_empty_folders_loop (folder self) (disk w3) of
                       None \<Rightarrow> None
                     | Some d \<Rightarrow> Some (Inr (), w3\<lparr>disk := d\<rparr>)))))"

text \<open>The result of a refresh with the entries of the folder it leaves.\<close>

definition refreshed :: "((exn + unit) \<times> world) option \<Rightarrow> ((exn + unit) \<times> entries option) option" where
  "refreshed x = map_option (\<lambda>(r, w). (r, folder_entries (disk w))) x"

subsection \<open>A concrete world\<close>

text \<open>
  A folder \<^verbatim>\<open>BaNaNaS\<close> with a repository whose \<^verbatim>\<open>origin\<close> is the public URL, an untracked
  file \<^verbatim>\<open>junk.txt\<close> and an empty directory \<^verbatim>\<open>empty/sub\<close>; the remote has the branches
  \<^verbatim>\<open>main\<close> and \<^verbatim>\<open>dev\<close>.
\<close>

definition example_repo :: repo where
  "example_repo = empty_repo\<lparr>remotes := [''origin'' \<mapsto> ''https://github.com/OpenTTD/BaNaNaS'']\<rparr>"

definition example_entries :: entries where
  "example_entries =
     [(''.git'', Dir [(''HEAD'', File ''ref: refs/heads/main''),
                     (''refs'', Dir [(''heads'', Dir [(''main'', File ''0'')]), (''tags'', Dir [])])]),
      (''junk.txt'', File ''junk''),
      (''empty'', Dir [(''sub'', Dir [])])]"

definition example_world :: world where
  "example_world =
     \<lparr>github_branch = ''main'', github_private_key = None,
      github_url = ''https://github.com/OpenTTD/BaNaNaS'',
      disk = Folder example_entries (Some example_repo),
      template = [(''HEAD'', File ''ref: refs/heads/main''),
                  (''refs'', Dir [(''heads'', Dir []), (''tags'', Dir [])])],
      environment = Map.empty,
      upstream = (\<lambda>url. [''main'' \<mapsto> [([''README.md''], ''readme''), ([''ai'', ''index.yaml''], ''a'')],
                           ''dev'' \<mapsto> [([''README.md''], ''dev'')]]),
      net = [], trace = [], tmp_name = ''/tmp/tmpkey'', tempfiles = []\<rparr>"

definition example_index :: Index where
  "example_index = \<lparr>folder = ''BaNaNaS'', ssh_command = None, github_private_key_file = None\<rparr>"

subsection \<open>Well-formed worlds\<close>

text \<open>
  The tree of a commit names every file once, no file without a name, and no file below
  another file.
\<close>

definition wf_manifest :: "manifest \<Rightarrow> bool" where
  "wf_manifest m =
     (distinct (map fst m) \<and>
      (\<forall>p \<in> set (map fst m). p \<noteq> [] \<and> (\<forall>q \<in> set (map fst m). prefix p q \<longrightarrow> p = q)))"

text \<open>
  In a well-formed world the trees of all branches, at the remote and in the
  remote-tracking references, are such trees, and no directory of the folder lists
  a name twice. File systems and git repositories are like this; a refresh that returns
  keeps a well-formed world well-formed (lemma \<open>wf_world_refresh\<close>).
\<close>

definition wf_world :: "world \<Rightarrow> bool" where
  "wf_world w =
     ((\<forall>url b m. upstream w url b = Some m \<longrightarrow> wf_manifest m) \<and>
      (case disk w of
         NoSuchPath \<Rightarrow> True
       | Folder es g \<Rightarrow>
           wf_entries es \<and>
           (case g of None \<Rightarrow> True | Some g \<Rightarrow> \<forall>b m. refs g b = Some m \<longrightarrow> wf_manifest m)))"

section \<open>Lemmas\<close>

subsection \<open>One pass over the folder, and the loop around it\<close>

text \<open>
  The walk never clears the variable \<^verbatim>\<open>removed\<close>, never adds a directory, has fewer
  directories when it sets the variable, and changes nothing when it leaves the variable
  false. The loop returns from every folder, by induction on the number of directories.
\<close>

lemma snapshot_empty:
  "(map fst (filter (\<lambda>e. is_dir (snd e)) es) = [] \<and>
    map fst (filter (\<lambda>e. \<not> is_dir (snd e)) es) = []) = (es = [])"
  by (cases es) auto

lemma snapshot_nonempty:
  "es \<noteq> [] \<Longrightarrow>
     \<not> (filter (\<lambda>e. is_dir (snd e)) es = [] \<and> filter (\<lambda>e. \<not> is_dir (snd e)) es = [])"
  by (cases es) auto

fun count_opt :: "entries option \<Rightarrow> nat" where
  "count_opt None = 0"
| "count_opt (Some es) = Suc (count_dirs es)"

lemma walk_facts:
  "(case walk_remove root es r of (res, r') \<Rightarrow>
      (r \<longrightarrow> r') \<and> count_opt res \<le> Suc (count_dirs es) \<and>
      (\<not> r \<and> r' \<longrightarrow> count_opt res < Suc (count_dirs es)) \<and>
      (\<not> r' \<longrightarrow> res = Some es))"
  "(case walk_children root es r of (es', r') \<Rightarrow>
      (r \<longrightarrow> r') \<and> count_dirs es' \<le> count_dirs es \<and>
      (\<not> r \<and> r' \<longrightarrow> count_dirs es' < count_dirs es) \<and>
      (\<not> r' \<longrightarrow> es' = es))"
proof (induction root es r and root es r rule: walk_remove_walk_children.induct)
  case (1 root es removed)
  then show ?case
    by (auto simp: walk_remove.simps[of root es removed] snapshot_empty Let_def split: prod.splits)
next
  case (2 root removed)
  then show ?case by simp
next
  case (3 root name c es removed)
  then show ?case by (auto split: prod.splits)
next
  case (4 root name sub es removed)
  obtain res r1 where w: "walk_remove (join root name) sub removed = (res, r1)"
    by (cases "walk_remove (join root name) sub removed")
  obtain es' r2 where c: "walk_children root es r1 = (es', r2)"
    by (cases "walk_children root es r1")
  from "4.IH"(1) w have a: "removed \<longrightarrow> r1" "count_opt res \<le> Suc (count_dirs sub)"
     "\<not> removed \<and> r1 \<longrightarrow> count_opt res < Suc (count_dirs sub)" "\<not> r1 \<longrightarrow> res = Some sub"
    by auto
  have b: "r1 \<longrightarrow> r2" "count_dirs es' \<le> count_dirs es"
     "\<not> r1 \<and> r2 \<longrightarrow> count_dirs es' < count_dirs es" "\<not> r2 \<longrightarrow> es' = es"
    using "4.IH"(2) "4.IH"(3) w c
    by (cases res; auto)+
  show ?case using a b w c
    by (cases res) auto
qed

lemma pass_facts:
  "(case remove_empty_folders f d of
      (d', removed) \<Rightarrow> if removed then count_state d' < count_state d else d' = d)"
proof (cases d)
  case NoSuchPath
  then show ?thesis by (simp add: remove_empty_folders_def)
next
  case (Folder es g)
  obtain res r where w: "walk_remove f es False = (res, r)"
    by (cases "walk_remove f es False")
  from walk_facts(1)[where root=f and es=es and r=False] w
  have "(r \<longrightarrow> count_opt res < Suc (count_dirs es)) \<and> (\<not> r \<longrightarrow> res = Some es)"
    by simp
  with Folder w show ?thesis
    by (cases res) (auto simp: remove_empty_folders_def)
qed

lemma loop_returns:
  "\<exists>d'. remove_empty_folders_loop f d = Some d' \<and> remove_empty_folders f d' = (d', False)"
proof (induction "count_state d" arbitrary: d rule: less_induct)
  case less
  obtain d1 r where p: "remove_empty_folders f d = (d1, r)"
    by (cases "remove_empty_folders f d")
  show ?case
  proof (cases r)
    case True
    with p pass_facts[where f=f and d=d] have "count_state d1 < count_state d" by simp
    from less[OF this] obtain d' where
      "remove_empty_folders_loop f d1 = Some d'" "remove_empty_folders f d' = (d', False)"
      by blast
    with p True show ?thesis
      by (subst remove_empty_folders_loop.simps) simp
  next
    case False
    with p pass_facts[where f=f and d=d] have "d1 = d" by simp
    with p False show ?thesis
      by (subst remove_empty_folders_loop.simps) simp
  qed
qed

lemma loop_stop:
  "remove_empty_folders f d = (d', False) \<Longrightarrow> remove_empty_folders_loop f d = Some d'"
  by (subst remove_empty_folders_loop.simps) simp

lemma loop_step:
  "remove_empty_folders f d = (d', True) \<Longrightarrow>
     remove_empty_folders_loop f d = remove_empty_folders_loop f d'"
  by (subst remove_empty_folders_loop.simps) simp

lemma loop_invariant:
  assumes "remove_empty_folders_loop f d = Some d'" and "P d"
    and "\<And>x y r. P x \<Longrightarrow> remove_empty_folders f x = (y, r) \<Longrightarrow> P y"
  shows "P d'"
  using assms(1,2)
proof (induction "count_state d" arbitrary: d rule: less_induct)
  case less
  obtain d1 r where p: "remove_empty_folders f d = (d1, r)"
    by (cases "remove_empty_folders f d")
  show ?case
  proof (cases r)
    case True
    with p pass_facts[where f=f and d=d] have c: "count_state d1 < count_state d" by simp
    from p True less.prems(1) have "remove_empty_folders_loop f d1 = Some d'"
      by (simp add: loop_step)
    from less.hyps[OF c this assms(3)[OF less.prems(2) p]] show ?thesis .
  next
    case False
    with p less.prems(1) have "d' = d1" by (simp add: loop_stop)
    with assms(3)[OF less.prems(2) p] show ?thesis by simp
  qed
qed

lemma loop_result_stable:
  assumes "remove_empty_folders_loop f d = Some d'"
  shows "remove_empty_folders f d' = (d', False)"
  using loop_returns[where f=f and d=d] assms by auto

subsection \<open>The fetch under the custom environment\<close>

text \<open>
  The context manager sets the variable to the value, or deletes it when the value is
  \<^verbatim>\<open>None\<close>, and leaves the environment as it found it.
\<close>

lemma origin_fetch_cases:
  assumes "disk w = Folder es (Some g)" "remotes g ''origin'' = Some url"
  shows "origin_fetch w =
     (case next_outcome (net w) of
        Some e \<Rightarrow>
          (Inl e, w\<lparr>trace := trace w @ [Fetch url (environment w ''GIT_SSH_COMMAND'')],
                     net := tl (net w)\<rparr>)
      | None \<Rightarrow>
          (Inr (), w\<lparr>trace := trace w @ [Fetch url (environment w ''GIT_SSH_COMMAND'')],
                     net := tl (net w),
                     disk := Folder es (Some (g\<lparr>refs := refs g ++ upstream w url\<rparr>))\<rparr>))"
  using assms by (simp add: origin_fetch_def Let_def split: option.splits)

lemma fetch_retry_cases:
  assumes "disk w = Folder es (Some g)" "remotes g ''origin'' = Some url"
  shows "fetch_retry w = fetched url (environment w ''GIT_SSH_COMMAND'') es g w"
proof (cases "next_outcome (net w)")
  case None
  then show ?thesis
    by (simp add: fetch_retry_def origin_fetch_cases[OF assms] fetched_def)
next
  case (Some e)
  show ?thesis
  proof (cases "e = BadName")
    case True
    let ?w1 = "w\<lparr>trace := trace w @ [Fetch url (environment w ''GIT_SSH_COMMAND'')],
                  net := tl (net w)\<rparr>"
    have d: "disk ?w1 = Folder es (Some g)" using assms by simp
    show ?thesis using Some True
      by (simp add: fetch_retry_def origin_fetch_cases[OF assms] origin_fetch_cases[OF d assms(2)]
            fetched_def split: option.splits)
  next
    case False
    then show ?thesis using Some
      by (cases e) (simp_all add: fetch_retry_def origin_fetch_cases[OF assms] fetched_def)
  qed
qed

lemma custom_environment_restores:
  assumes "body (w\<lparr>environment := (environment w)(K := v)\<rparr>) = (r, w1)"
    and "environment w1 = (environment w)(K := v)"
  shows "custom_environment K v body w = (r, w1\<lparr>environment := environment w\<rparr>)"
proof (cases v)
  case None
  show ?thesis
  proof (cases "environment w K")
    case N: None
    then have "(environment w)(K := None) = environment w" by (simp add: fun_upd_idem)
    with assms None N show ?thesis
      by (simp add: custom_environment_def update_environment_def)
  next
    case (Some old)
    have "(environment w)(K := None, K \<mapsto> old) = environment w"
      using Some by (simp add: fun_upd_idem)
    with assms None Some show ?thesis
      by (simp add: custom_environment_def update_environment_def)
  qed
next
  case (Some y)
  show ?thesis
  proof (cases "environment w K")
    case None
    then have "(environment w)(K \<mapsto> y, K := None) = environment w"
      by (simp add: fun_upd_idem)
    with assms Some None show ?thesis
      by (simp add: custom_environment_def update_environment_def)
  next
    case S: (Some old)
    then have "(environment w)(K \<mapsto> y, K \<mapsto> old) = environment w"
      by (simp add: fun_upd_idem)
    with assms Some S show ?thesis
      by (simp add: custom_environment_def update_environment_def)
  qed
qed

lemma fetch_phase:
  assumes "disk w = Folder es (Some g)" "remotes g ''origin'' = Some url"
  shows "custom_environment ''GIT_SSH_COMMAND'' v fetch_retry w = fetched url v es g w"
proof -
  let ?K = "''GIT_SSH_COMMAND''"
  let ?w0 = "w\<lparr>environment := (environment w)(?K := v)\<rparr>"
  have d: "disk ?w0 = Folder es (Some g)" using assms by simp
  obtain r w1 where b: "fetch_retry ?w0 = (r, w1)" by (cases "fetch_retry ?w0")
  have e: "environment w1 = (environment w)(?K := v)"
    using b by (auto simp: fetch_retry_cases[OF d assms(2)] fetched_def split: option.splits if_splits)
  have "(r, w1\<lparr>environment := environment w\<rparr>) = fetched url v es g w"
    using b by (auto simp: fetch_retry_cases[OF d assms(2)] fetched_def split: option.splits if_splits)
  with custom_environment_restores[where body=fetch_retry and w=w and K="?K" and v=v, OF b e]
  show ?thesis by simp
qed

lemma fetch_latest_unfold:
  assumes "disk w = Folder es (Some g)" "remotes g ''origin'' = Some url"
  shows "fetch_latest self b w =
     (case fetched url (ssh_command self) es g w of
        (Inl e, w1) \<Rightarrow> Some (Inl e, w1)
      | (Inr _, w1) \<Rightarrow> after_fetch self b w1)"
  using assms
  by (simp add: fetch_latest_def fetch_phase[OF assms] after_fetch_def split: prod.splits sum.splits)

lemma fetch_latest_no_origin:
  assumes "\<not> (\<exists>es g url. disk w = Folder es (Some g) \<and> remotes g ''origin'' = Some url)"
  shows "\<exists>e. fetch_latest self b w = Some (Inl e, w)"
  using assms by (auto simp: fetch_latest_def split: path_state.splits option.splits)

lemma fetched_ok:
  "fetched url v es g w = (Inr u, wa) \<Longrightarrow>
     disk wa = Folder es (Some (g\<lparr>refs := refs g ++ upstream w url\<rparr>)) \<and> upstream wa = upstream w"
  by (auto simp: fetched_def split: option.splits if_splits)

lemma fetched_error:
  "fetched url v es g w = (Inl e, wa) \<Longrightarrow> disk wa = disk w"
  by (auto simp: fetched_def split: option.splits if_splits)

subsection \<open>What the steps after the fetch leave alone\<close>

text \<open>
  The trace of a refresh: every fetch ran under the ssh command of the object, there is
  one if \<^verbatim>\<open>origin\<close> is there, and a refresh that succeeds ends with the one checkout,
  of the branch it was called with.
\<close>

lemma checkout_frame:
  "checkout b w = (r, w') \<Longrightarrow>
     net w' = net w \<and> environment w' = environment w \<and>
     (case r of Inl e \<Rightarrow> w' = w | Inr _ \<Rightarrow> trace w' = trace w @ [Checkout b])"
  by (auto simp: checkout_def Let_def split: path_state.splits option.splits)

lemma checkout_ok:
  assumes "checkout b wa = (Inr u, wb)" and "disk wa = Folder es (Some ga)"
  shows "\<exists>target. refs ga b = Some target \<and>
     wb = wa\<lparr>disk := Folder
                (fold (\<lambda>(p, c). write_file p c) target
                   (fold remove_file
                      (filter (\<lambda>p. p \<notin> set (map fst target)) (map fst (tracked ga))) es))
                (Some (ga\<lparr>heads := (heads ga)(b \<mapsto> target), head := Some b, tracked := target\<rparr>)),
              trace := trace wa @ [Checkout b]\<rparr>"
  using assms by (auto simp: checkout_def Let_def split: option.splits)

lemma os_unlink_frame:
  "os_unlink f p w = (r, w') \<Longrightarrow>
     net w' = net w \<and> trace w' = trace w \<and> environment w' = environment w"
  by (auto simp: os_unlink_def split: path_state.splits sum.splits if_splits)

lemma unlink_all_frame:
  "unlink_all f ps w = (r, w') \<Longrightarrow>
     net w' = net w \<and> trace w' = trace w \<and> environment w' = environment w"
proof (induction ps arbitrary: w)
  case Nil
  then show ?case by simp
next
  case (Cons p ps)
  obtain r1 w1 where u: "os_unlink f p w = (r1, w1)" by (cases "os_unlink f p w")
  show ?case
  proof (cases r1)
    case (Inl e)
    with Cons.prems u os_unlink_frame[OF u] show ?thesis by simp
  next
    case (Inr x)
    with Cons.prems u have "unlink_all f ps w1 = (r, w')" by simp
    from Cons.IH[OF this] os_unlink_frame[OF u] show ?thesis by simp
  qed
qed

lemma after_fetch_returns: "\<exists>res. after_fetch self b w = Some res"
proof -
  have "\<And>d. \<exists>d'. remove_empty_folders_loop (folder self) d = Some d'"
    using loop_returns by blast
  then show ?thesis
    unfolding after_fetch_def
    by (auto split: prod.splits sum.splits option.splits) (metis option.distinct(1))+
qed

lemma after_fetch_frame:
  "after_fetch self b w = Some (r, w') \<Longrightarrow>
     net w' = net w \<and> environment w' = environment w \<and>
     (trace w' = trace w \<or> trace w' = trace w @ [Checkout b]) \<and>
     (r = Inr () \<longrightarrow> trace w' = trace w @ [Checkout b])"
  unfolding after_fetch_def
  by (auto split: prod.splits sum.splits option.splits
        dest!: checkout_frame unlink_all_frame)

lemma fetch_latest_returns: "\<exists>res. fetch_latest self b w = Some res"
proof (cases "\<exists>es g url. disk w = Folder es (Some g) \<and> remotes g ''origin'' = Some url")
  case True
  then obtain es g url where d: "disk w = Folder es (Some g)" "remotes g ''origin'' = Some url"
    by blast
  show ?thesis
    using after_fetch_returns
    by (auto simp: fetch_latest_unfold[OF d] split: prod.splits sum.splits)
next
  case False
  from fetch_latest_no_origin[OF this] show ?thesis by blast
qed

lemma fetch_latest_trace:
  assumes "fetch_latest self b w = Some (r, w')"
  shows "\<exists>t. trace w' = trace w @ t \<and> (\<forall>url c. Fetch url c \<in> set t \<longrightarrow> c = ssh_command self) \<and>
      (\<forall>es g url. disk w = Folder es (Some g) \<and> remotes g ''origin'' = Some url \<longrightarrow>
          Fetch url (ssh_command self) \<in> set t) \<and>
      (r = Inr () \<longrightarrow> (\<exists>t'. t = t' @ [Checkout b] \<and> (\<forall>b'. Checkout b' \<notin> set t')))"
proof (cases "\<exists>es g url. disk w = Folder es (Some g) \<and> remotes g ''origin'' = Some url")
  case False
  from fetch_latest_no_origin[OF this] assms have "w' = w \<and> r \<noteq> Inr ()"
    by (metis Pair_inject option.inject sum.distinct(1))
  with False show ?thesis by auto
next
  case True
  then obtain es g url where d: "disk w = Folder es (Some g)" "remotes g ''origin'' = Some url"
    by blast
  obtain r1 w1 where p: "fetched url (ssh_command self) es g w = (r1, w1)"
    by (cases "fetched url (ssh_command self) es g w")
  let ?F = "Fetch url (ssh_command self)"
  from p have t1: "trace w1 = trace w @ [?F] \<or> trace w1 = trace w @ [?F, ?F]"
    by (auto simp: fetched_def split: option.splits if_splits)
  show ?thesis
  proof (cases r1)
    case (Inl e)
    with assms p have "w' = w1" "r = Inl e" by (simp_all add: fetch_latest_unfold[OF d])
    with t1 d show ?thesis by auto
  next
    case (Inr u)
    with assms p have "after_fetch self b w1 = Some (r, w')" by (simp add: fetch_latest_unfold[OF d])
    from after_fetch_frame[OF this] t1 d show ?thesis by auto
  qed
qed

subsection \<open>The constructor in closed form\<close>

lemma open_or_init_eq:
  "open_or_init w =
     (Inr (), w\<lparr>disk := Repo_init (template w) (disk w), environment := Map.empty\<rparr>)"
  by (auto simp: open_or_init_def Repo_open_def Repo_init_def split: path_state.splits option.splits)

lemma ensure_origin_cases:
  assumes "disk w = Folder es (Some g)"
  shows "ensure_origin w =
     (Inr (), w\<lparr>disk := Folder es (Some (g\<lparr>remotes := (remotes g)(''origin'' \<mapsto> github_url w)\<rparr>))\<rparr>)"
proof (cases "remotes g ''origin''")
  case None
  then show ?thesis using assms by (simp add: ensure_origin_def)
next
  case (Some u)
  then have "u = github_url w \<Longrightarrow> g\<lparr>remotes := (remotes g)(''origin'' \<mapsto> github_url w)\<rparr> = g"
    by (simp add: fun_upd_idem)
  with Some show ?thesis using assms by (auto simp add: ensure_origin_def)
qed

lemma Repo_init_repo: "\<exists>es g. Repo_init t d = Folder es (Some g)"
  by (auto simp: Repo_init_def split: path_state.splits option.splits)

lemma Index_init_unfold:
  assumes "Repo_init (template w) (disk w) = Folder es (Some g)"
  shows "Index_init base w =
     (Inr \<lparr>folder = base, ssh_command = snd (fst (write_private_key w)),
           github_private_key_file = fst (fst (write_private_key w))\<rparr>,
      (snd (write_private_key w))\<lparr>
         disk := Folder es (Some (g\<lparr>remotes := (remotes g)(''origin'' \<mapsto> github_url w)\<rparr>)),
         environment := Map.empty\<rparr>)"
proof -
  obtain kf ssh w1 where k: "write_private_key w = ((kf, ssh), w1)"
    by (cases "write_private_key w") auto
  then have w1: "disk w1 = disk w" "template w1 = template w" "github_url w1 = github_url w"
    by (auto simp: write_private_key_def split: option.splits if_splits)
  let ?w2 = "w1\<lparr>disk := Folder es (Some g), environment := Map.empty\<rparr>"
  have d: "disk ?w2 = Folder es (Some g)" by simp
  show ?thesis
    using k w1 assms
    by (simp add: Index_init_def open_or_init_eq ensure_origin_cases[OF d])
qed

subsection \<open>Files at their paths\<close>

text \<open>
  Writing a file puts it at its path and leaves the files at unrelated paths alone;
  unlinking a file removes exactly that file; all of it keeps directories free of
  double names.
\<close>

lemma lookup_write_same: "p \<noteq> [] \<Longrightarrow> lookup (write_file p c es) p = Some (File c)"
proof (induction p arbitrary: es)
  case Nil
  then show ?case by simp
next
  case (Cons n p)
  then show ?case
    by (cases "p = []") (simp_all add: update_conv')
qed

lemma lookup_write_other:
  "\<not> prefix p q \<Longrightarrow> \<not> prefix q p \<Longrightarrow> lookup (write_file p c es) q = lookup es q"
proof (induction p arbitrary: q es)
  case Nil
  then show ?case by simp
next
  case (Cons n p)
  then obtain m q' where q: "q = m # q'" by (cases q) auto
  show ?case
  proof (cases "m = n")
    case False
    then show ?thesis using q by (simp add: update_conv')
  next
    case True
    with Cons.prems q have pq: "p \<noteq> []" "q' \<noteq> []" "\<not> prefix p q'" "\<not> prefix q' p"
      by auto
    let ?sub = "case map_of es n of Some (Dir sub) \<Rightarrow> sub | _ \<Rightarrow> []"
    have "lookup (write_file p c ?sub) q' = lookup ?sub q'"
      using Cons.IH[OF pq(3,4)] .
    moreover have "lookup es q = lookup ?sub q'"
      using q True pq by (cases q') (auto split: option.splits node.splits)
    ultimately show ?thesis using q True pq by (simp add: update_conv')
  qed
qed

lemma write_triv: "lookup es p = Some (File c) \<Longrightarrow> write_file p c es = es"
proof (induction p arbitrary: es)
  case Nil
  then show ?case by simp
next
  case (Cons n p)
  show ?case
  proof (cases "p = []")
    case True
    with Cons.prems show ?thesis
      by (auto simp: update_triv split: option.splits)
  next
    case False
    with Cons.prems obtain sub where s: "map_of es n = Some (Dir sub)" "lookup sub p = Some (File c)"
      by (auto split: option.splits node.splits)
    from Cons.IH[OF s(2)] s False show ?thesis by (simp add: update_triv)
  qed
qed

lemma unlink_lookup:
  "unlink q es = Inr es' \<Longrightarrow>
     (lookup es' p = Some (File c)) = (p \<noteq> q \<and> lookup es p = Some (File c))"
proof (induction q arbitrary: p es es')
  case Nil
  then show ?case by simp
next
  case (Cons n q)
  show ?case
  proof (cases p)
    case Nil
    then show ?thesis by simp
  next
    case (Cons m p')
    show ?thesis
    proof (cases "map_of es n")
      case None
      with Cons.prems show ?thesis by simp
    next
      case (Some nd)
      show ?thesis
      proof (cases nd)
        case (File c0)
        with Some Cons.prems have e: "q = []" "es' = AList.delete n es"
          by (auto split: if_splits)
        show ?thesis using e Some File Cons
          by (cases "m = n") (auto simp: delete_conv' split: option.splits node.splits)
      next
        case (Dir sub)
        with Some Cons.prems obtain sub' where
          e: "q \<noteq> []" "unlink q sub = Inr sub'" "es' = AList.update n (Dir sub') es"
          by (auto split: if_splits sum.splits)
        note IH = Cons.IH[OF e(2)]
        show ?thesis using e(1,3) Some Dir Cons IH[of p']
          by (cases "m = n") (auto simp: update_conv' split: option.splits node.splits)
      qed
    qed
  qed
qed

lemma lookup_files:
  "lookup es p = Some (File c) \<Longrightarrow> p \<in> set (files_of es)"
proof (induction es arbitrary: p rule: files_of.induct)
  case 1
  then show ?case by (cases p) auto
next
  case (2 n c0 es)
  from "2.prems" obtain m p' where p: "p = m # p'" by (cases p) auto
  show ?case
  proof (cases "m = n")
    case True
    with "2.prems" p show ?thesis by (auto split: if_splits)
  next
    case False
    with "2.prems" p have "lookup es p = Some (File c)" by simp
    from "2.IH"[OF this] show ?thesis by simp
  qed
next
  case (3 n sub es)
  from "3.prems" obtain m p' where p: "p = m # p'" by (cases p) auto
  show ?case
  proof (cases "m = n")
    case True
    with "3.prems" p have "p' \<noteq> []" "lookup sub p' = Some (File c)" by (auto split: if_splits)
    with "3.IH"(1) p True show ?thesis by auto
  next
    case False
    with "3.prems" p have "lookup es p = Some (File c)" by simp
    from "3.IH"(2)[OF this] show ?thesis by simp
  qed
qed

lemma wf_entries_iff:
  "wf_entries es = (distinct (map fst es) \<and> (\<forall>n sub. (n, Dir sub) \<in> set es \<longrightarrow> wf_entries sub))"
  by (induction es rule: wf_entries.induct) auto

lemma files_lookup:
  "wf_entries es \<Longrightarrow> p \<in> set (files_of es) \<Longrightarrow> \<exists>c. lookup es p = Some (File c)"
proof (induction es arbitrary: p rule: files_of.induct)
  case 1
  then show ?case by simp
next
  case (2 n c es)
  show ?case
  proof (cases "p = [n]")
    case True
    then show ?thesis by simp
  next
    case False
    with 2 have i: "p \<in> set (files_of es)" "wf_entries es" by auto
    from "2.IH"[OF i(2,1)] obtain c' where l: "lookup es p = Some (File c')" by blast
    then obtain m p' where p: "p = m # p'" by (cases p) auto
    with l have "map_of es m \<noteq> None" by (auto split: option.splits)
    then have "m \<in> fst ` set es" by (simp add: map_of_eq_None_iff)
    with "2.prems" have "m \<noteq> n" by auto
    with l p show ?thesis by simp
  qed
next
  case (3 n sub es)
  show ?case
  proof (cases "p \<in> (#) n ` set (files_of sub)")
    case True
    then obtain p' where p: "p = n # p'" "p' \<in> set (files_of sub)" by auto
    from "3.prems" have "wf_entries sub" by simp
    from "3.IH"(1)[OF this p(2)] obtain c where l: "lookup sub p' = Some (File c)" by blast
    then have "p' \<noteq> []" by auto
    with l show ?thesis using p by auto
  next
    case False
    with 3 have i: "p \<in> set (files_of es)" "wf_entries es" by auto
    from "3.IH"(2)[OF i(2,1)] obtain c' where l: "lookup es p = Some (File c')" by blast
    then obtain m p' where p: "p = m # p'" by (cases p) auto
    with l have "map_of es m \<noteq> None" by (auto split: option.splits)
    then have "m \<in> fst ` set es" by (simp add: map_of_eq_None_iff)
    with "3.prems" have "m \<noteq> n" by auto
    with l p show ?thesis by simp
  qed
qed

lemma files_of_filter:
  "files_of (filter (\<lambda>e. fst e \<noteq> G) es) = filter (\<lambda>p. hd p \<noteq> G) (files_of es)"
  by (induction es rule: files_of.induct) (auto simp: filter_map comp_def)

lemma set_update_cases:
  "x \<in> set (AList.update k v al) \<Longrightarrow> x = (k, v) \<or> x \<in> set al"
  by (induction al) (auto split: if_splits)

lemma set_delete_subset: "x \<in> set (AList.delete k al) \<Longrightarrow> x \<in> set al"
  by (induction al) (auto split: if_splits)

lemma wf_update:
  assumes "wf_entries es" and "\<And>sub. nd = Dir sub \<Longrightarrow> wf_entries sub"
  shows "wf_entries (AList.update n nd es)"
proof -
  from assms(1) have d: "distinct (map fst es)"
    and s: "\<And>m sub. (m, Dir sub) \<in> set es \<Longrightarrow> wf_entries sub"
    by (subst (asm) wf_entries_iff, blast)+
  have "\<And>m sub. (m, Dir sub) \<in> set (AList.update n nd es) \<Longrightarrow> wf_entries sub"
    using set_update_cases[of _ n nd es] s assms(2) by blast
  with d show ?thesis
    by (subst wf_entries_iff) (simp add: distinct_update)
qed

lemma wf_delete:
  assumes "wf_entries es"
  shows "wf_entries (AList.delete n es)"
proof -
  from assms have d: "distinct (map fst es)"
    and s: "\<And>m sub. (m, Dir sub) \<in> set es \<Longrightarrow> wf_entries sub"
    by (subst (asm) wf_entries_iff, blast)+
  have "\<And>m sub. (m, Dir sub) \<in> set (AList.delete n es) \<Longrightarrow> wf_entries sub"
    using set_delete_subset[of _ n es] s by blast
  with d show ?thesis
    by (subst wf_entries_iff) (simp add: distinct_delete)
qed

lemma wf_sub: "wf_entries es \<Longrightarrow> map_of es n = Some (Dir sub) \<Longrightarrow> wf_entries sub"
  by (subst (asm) wf_entries_iff) (auto dest: map_of_SomeD)

lemma wf_write: "wf_entries es \<Longrightarrow> wf_entries (write_file p c es)"
proof (induction p arbitrary: es)
  case Nil
  then show ?case by simp
next
  case (Cons n p)
  let ?sub = "case map_of es n of Some (Dir sub) \<Rightarrow> sub | _ \<Rightarrow> []"
  have "wf_entries ?sub"
    using Cons.prems wf_sub[of es n] by (auto split: option.splits node.splits)
  from Cons.IH[OF this] Cons.prems show ?case
    by (auto intro!: wf_update)
qed

lemma wf_remove: "wf_entries es \<Longrightarrow> wf_entries (remove_file p es)"
proof (induction p arbitrary: es)
  case Nil
  then show ?case by simp
next
  case (Cons n p)
  show ?case
  proof (cases "map_of es n")
    case None
    with Cons.prems show ?thesis by simp
  next
    case (Some nd)
    show ?thesis
    proof (cases nd)
      case (File c)
      with Some Cons.prems show ?thesis by (simp add: wf_delete)
    next
      case (Dir sub)
      with Some Cons.prems have "wf_entries sub" by (simp add: wf_sub)
      from Cons.IH[OF this] Some Dir Cons.prems show ?thesis
        by (auto intro!: wf_update)
    qed
  qed
qed

lemma wf_unlink: "wf_entries es \<Longrightarrow> unlink q es = Inr es' \<Longrightarrow> wf_entries es'"
proof (induction q arbitrary: es es')
  case Nil
  then show ?case by simp
next
  case (Cons n q)
  show ?case
  proof (cases "map_of es n")
    case None
    with Cons.prems show ?thesis by simp
  next
    case (Some nd)
    show ?thesis
    proof (cases nd)
      case (File c)
      with Some Cons.prems show ?thesis by (auto simp add: wf_delete split: if_splits)
    next
      case (Dir sub)
      with Some Cons.prems obtain sub' where
        e: "unlink q sub = Inr sub'" "es' = AList.update n (Dir sub') es"
        by (auto split: if_splits sum.splits)
      from Some Dir Cons.prems have "wf_entries sub" by (simp add: wf_sub)
      from Cons.IH[OF this e(1)] e(2) Cons.prems show ?thesis
        by (auto intro!: wf_update)
    qed
  qed
qed

lemma wf_fold_remove: "wf_entries es \<Longrightarrow> wf_entries (fold remove_file ps es)"
  by (induction ps arbitrary: es) (auto simp: wf_remove)

lemma wf_fold_write: "wf_entries es \<Longrightarrow> wf_entries (fold (\<lambda>(p, c). write_file p c) m es)"
  by (induction m arbitrary: es) (auto simp: wf_write)

lemma wf_manifest_incomparable:
  "wf_manifest m \<Longrightarrow> p \<in> set (map fst m) \<Longrightarrow> q \<in> set (map fst m) \<Longrightarrow> p \<noteq> q \<Longrightarrow>
     \<not> prefix p q"
  unfolding wf_manifest_def by blast

lemma fold_write_lookup:
  assumes "wf_manifest m"
  shows "\<forall>(p, c) \<in> set m. lookup (fold (\<lambda>(p, c). write_file p c) m es) p = Some (File c)"
proof -
  have "\<And>es done. set done \<union> set todo = set m \<Longrightarrow> distinct (map fst (done @ todo)) \<Longrightarrow>
      \<forall>(p, c) \<in> set done. lookup es p = Some (File c) \<Longrightarrow>
      \<forall>(p, c) \<in> set m. lookup (fold (\<lambda>(p, c). write_file p c) todo es) p = Some (File c)" for todo
  proof (induction todo)
    case Nil
    then show ?case by simp
  next
    case (Cons x todo)
    obtain q d where x: "x = (q, d)" by (cases x)
    have qm: "q \<in> set (map fst m)" using Cons.prems(1) x by force
    have qne: "q \<noteq> []" using assms qm by (auto simp: wf_manifest_def)
    have keep: "\<forall>(p, c) \<in> set done. lookup (write_file q d es) p = Some (File c)"
    proof (clarify)
      fix p c assume pc: "(p, c) \<in> set done"
      then have pm: "p \<in> set (map fst m)" using Cons.prems(1) by force
      from pc Cons.prems(2) x have "p \<noteq> q" by force
      with assms pm qm have "\<not> prefix p q" "\<not> prefix q p"
        using wf_manifest_incomparable[of m p q] wf_manifest_incomparable[of m q p] by auto
      with lookup_write_other[of q p d es] pc Cons.prems(3) show "lookup (write_file q d es) p = Some (File c)"
        by auto
    qed
    have "\<forall>(p, c) \<in> set (done @ [x]). lookup (write_file q d es) p = Some (File c)"
      using keep x lookup_write_same[OF qne] by auto
    moreover have "set (done @ [x]) \<union> set todo = set m" using Cons.prems(1) by auto
    moreover have "distinct (map fst ((done @ [x]) @ todo))" using Cons.prems(2) by simp
    ultimately have "\<forall>(p, c) \<in> set m.
        lookup (fold (\<lambda>(p, c). write_file p c) todo (write_file q d es)) p = Some (File c)"
      using Cons.IH[of "done @ [x]" "write_file q d es"] by blast
    then show ?case using x by simp
  qed
  from this[of "[]" m es] assms show ?thesis by (simp add: wf_manifest_def)
qed

lemma fold_write_triv:
  "\<forall>(p, c) \<in> set m. lookup es p = Some (File c) \<Longrightarrow> fold (\<lambda>(p, c). write_file p c) m es = es"
  by (induction m) (auto simp: write_triv)

lemma os_unlink_contents:
  assumes "os_unlink f q w = (Inr (), w')" and "disk w = Folder es g"
  shows "\<exists>es'. unlink q es = Inr es' \<and> w' = w\<lparr>disk := Folder es' g\<rparr>"
  using assms by (auto simp: os_unlink_def split: if_splits sum.splits)

lemma unlink_all_contents:
  assumes "unlink_all f names w = (Inr (), w')" and "disk w = Folder es g"
  shows "\<exists>es'. w' = w\<lparr>disk := Folder es' g\<rparr> \<and> (wf_entries es \<longrightarrow> wf_entries es') \<and>
      (\<forall>p c. (lookup es' p = Some (File c)) = (p \<notin> set names \<and> lookup es p = Some (File c)))"
  using assms
proof (induction names arbitrary: w es)
  case Nil
  then show ?case by (auto intro!: exI[of _ es])
next
  case (Cons q names)
  obtain r1 w1 where u: "os_unlink f q w = (r1, w1)" by (cases "os_unlink f q w")
  with Cons.prems(1) have r1: "r1 = Inr ()" and rest: "unlink_all f names w1 = (Inr (), w')"
    by (auto split: sum.splits)
  from os_unlink_contents[OF u[unfolded r1] Cons.prems(2)] obtain es1 where
    e1: "unlink q es = Inr es1" "w1 = w\<lparr>disk := Folder es1 g\<rparr>" by blast
  then have d1: "disk w1 = Folder es1 g" by simp
  from Cons.IH[OF rest d1] obtain es' where
    e': "w' = w1\<lparr>disk := Folder es' g\<rparr>" "wf_entries es1 \<longrightarrow> wf_entries es'"
      "\<forall>p c. (lookup es' p = Some (File c)) = (p \<notin> set names \<and> lookup es1 p = Some (File c))"
    by blast
  have "w' = w\<lparr>disk := Folder es' g\<rparr>" using e'(1) e1(2) by simp
  moreover have "wf_entries es \<longrightarrow> wf_entries es'" using e'(2) wf_unlink[OF _ e1(1)] by blast
  moreover have "\<forall>p c. (lookup es' p = Some (File c)) = (p \<notin> set (q # names) \<and> lookup es p = Some (File c))"
    using e'(3) unlink_lookup[OF e1(1)] by auto
  ultimately show ?case by blast
qed

subsection \<open>What the walk keeps\<close>

text \<open>
  A pass keeps the repository, the list of files, and every file at its path.
\<close>

lemma walk_files:
  "(case walk_remove root es r of
      (None, r') \<Rightarrow> es = []
    | (Some es', r') \<Rightarrow> files_of es' = files_of es)"
  "(case walk_children root es r of (es', r') \<Rightarrow> files_of es' = files_of es)"
proof (induction root es r and root es r rule: walk_remove_walk_children.induct)
  case (1 root es removed)
  obtain es' r' where c: "walk_children root es removed = (es', r')"
    by (cases "walk_children root es removed")
  from "1.IH"[OF refl refl] c have "files_of es' = files_of es" by simp
  then show ?case using c snapshot_nonempty[of es]
    by (auto simp add: walk_remove.simps[of root es removed])
next
  case (2 root removed)
  then show ?case by simp
next
  case (3 root name c es removed)
  then show ?case by (auto split: prod.splits)
next
  case (4 root name sub es removed)
  obtain res r1 where w: "walk_remove (join root name) sub removed = (res, r1)"
    by (cases "walk_remove (join root name) sub removed")
  obtain es' r2 where c: "walk_children root es r1 = (es', r2)"
    by (cases "walk_children root es r1")
  from "4.IH"(1) w have a: "case res of None \<Rightarrow> sub = [] | Some sub' \<Rightarrow> files_of sub' = files_of sub"
    by auto
  have b: "files_of es' = files_of es"
    using "4.IH"(2) "4.IH"(3) w c
    by (cases res; auto)
  show ?case using a b w c
    by (cases res) auto
qed

lemma walk_lookup:
  "lookup es p = Some (File c) \<Longrightarrow>
     (case walk_remove root es r of
        (None, r') \<Rightarrow> False
      | (Some es', r') \<Rightarrow> lookup es' p = Some (File c))"
  "lookup es p = Some (File c) \<Longrightarrow>
     (case walk_children root es r of (es', r') \<Rightarrow> lookup es' p = Some (File c))"
proof (induction root es r and root es r arbitrary: p and p rule: walk_remove_walk_children.induct)
  case (1 root es removed)
  from "1.prems" have ne: "es \<noteq> []" by (cases p) auto
  obtain es' r' where c: "walk_children root es removed = (es', r')"
    by (cases "walk_children root es removed")
  from "1.IH"[OF refl refl "1.prems"] c have "lookup es' p = Some (File c)" by simp
  then show ?case using c snapshot_nonempty[OF ne]
    by (auto simp add: walk_remove.simps[of root es removed])
next
  case (2 root removed)
  then show ?case by (cases p) auto
next
  case (3 root name c0 es removed)
  obtain es' r2 where c: "walk_children root es removed = (es', r2)"
    by (cases "walk_children root es removed")
  obtain m p' where p: "p = m # p'" using "3.prems" by (cases p) auto
  show ?case
  proof (cases "m = name")
    case True
    with "3.prems" p c show ?thesis by (auto split: if_splits)
  next
    case False
    with "3.prems" p have "lookup es p = Some (File c)" by simp
    from "3.IH"[OF this] c False p show ?thesis by simp
  qed
next
  case (4 root name sub es removed)
  obtain res r1 where w: "walk_remove (join root name) sub removed = (res, r1)"
    by (cases "walk_remove (join root name) sub removed")
  obtain es' r2 where c: "walk_children root es r1 = (es', r2)"
    by (cases "walk_children root es r1")
  obtain m p' where p: "p = m # p'" using "4.prems" by (cases p) auto
  show ?case
  proof (cases "m = name")
    case True
    with "4.prems" p have s: "p' \<noteq> []" "lookup sub p' = Some (File c)"
      by (auto split: if_splits)
    from "4.IH"(1)[OF s(2)] w obtain sub' where r: "res = Some sub'" "lookup sub' p' = Some (File c)"
      by (cases res) auto
    with w c p True s show ?thesis by simp
  next
    case False
    with "4.prems" p have l: "lookup es p = Some (File c)" by simp
    have "lookup es' p = Some (File c)"
      using "4.IH"(2)[OF _ _ l] "4.IH"(3)[OF _ _ l] w c by (cases res) auto
    with w c p False show ?thesis by (cases res) auto
  qed
qed

lemma walk_wf:
  "wf_entries es \<Longrightarrow>
     (case walk_remove root es r of (None, r') \<Rightarrow> True | (Some es', r') \<Rightarrow> wf_entries es')"
  "wf_entries es \<Longrightarrow>
     (case walk_children root es r of
        (es', r') \<Rightarrow> wf_entries es' \<and> set (map fst es') \<subseteq> set (map fst es))"
proof (induction root es r and root es r rule: walk_remove_walk_children.induct)
  case (1 root es removed)
  obtain es' r' where c: "walk_children root es removed = (es', r')"
    by (cases "walk_children root es removed")
  from "1.IH"[OF refl refl "1.prems"] c have "wf_entries es'" by simp
  then show ?case using c
    by (auto simp add: walk_remove.simps[of root es removed])
next
  case (2 root removed)
  then show ?case by simp
next
  case (3 root name c es removed)
  then show ?case by (auto split: prod.splits)
next
  case (4 root name sub es removed)
  obtain res r1 where w: "walk_remove (join root name) sub removed = (res, r1)"
    by (cases "walk_remove (join root name) sub removed")
  obtain es' r2 where c: "walk_children root es r1 = (es', r2)"
    by (cases "walk_children root es r1")
  from "4.prems" have p: "name \<notin> set (map fst es)" "wf_entries sub" "wf_entries es" by auto
  from "4.IH"(1)[OF p(2)] w have a: "case res of None \<Rightarrow> True | Some sub' \<Rightarrow> wf_entries sub'"
    by auto
  have b: "wf_entries es' \<and> set (map fst es') \<subseteq> set (map fst es)"
    using "4.IH"(2)[OF _ _ p(3)] "4.IH"(3)[OF _ _ p(3)] w c
    by (cases res; auto)
  show ?case using a b w c p(1)
    by (cases res) auto
qed

lemma pass_keeps:
  assumes "remove_empty_folders f (Folder es g) = (d', r)"
  shows "(d' = NoSuchPath \<and> es = []) \<or>
         (\<exists>es'. d' = Folder es' g \<and> files_of es' = files_of es \<and>
            (wf_entries es \<longrightarrow> wf_entries es') \<and>
            (\<forall>p c. lookup es p = Some (File c) \<longrightarrow> lookup es' p = Some (File c)))"
proof (cases "f = []")
  case True
  with assms show ?thesis by (auto simp: remove_empty_folders_def)
next
  case False
  obtain res r1 where w: "walk_remove f es False = (res, r1)"
    by (cases "walk_remove f es False")
  show ?thesis
  proof (cases res)
    case None
    with w walk_files(1)[where root=f and es=es and r=False] have "es = []" by simp
    with assms False w None show ?thesis by (simp add: remove_empty_folders_def)
  next
    case (Some es')
    with w walk_files(1)[where root=f and es=es and r=False] have fl: "files_of es' = files_of es" by simp
    have "\<forall>p c. lookup es p = Some (File c) \<longrightarrow> lookup es' p = Some (File c)"
      using walk_lookup(1)[where root=f and es=es and r=False] w Some by auto
    moreover have "wf_entries es \<longrightarrow> wf_entries es'"
      using walk_wf(1)[where root=f and es=es and r=False] w Some by auto
    ultimately show ?thesis using fl assms False w Some
      by (auto simp add: remove_empty_folders_def)
  qed
qed

lemma loop_keeps:
  assumes "remove_empty_folders_loop f (Folder es g) = Some d'"
  shows "(d' = NoSuchPath \<and> files_of es = []) \<or>
         (\<exists>es'. d' = Folder es' g \<and> files_of es' = files_of es \<and>
            (wf_entries es \<longrightarrow> wf_entries es') \<and>
            (\<forall>p c. lookup es p = Some (File c) \<longrightarrow> lookup es' p = Some (File c)))"
proof -
  let ?P = "\<lambda>d. (d = NoSuchPath \<and> files_of es = []) \<or>
         (\<exists>es'. d = Folder es' g \<and> files_of es' = files_of es \<and>
            (wf_entries es \<longrightarrow> wf_entries es') \<and>
            (\<forall>p c. lookup es p = Some (File c) \<longrightarrow> lookup es' p = Some (File c)))"
  have "?P d'"
  proof (rule loop_invariant[where P="?P", OF assms])
    show "?P (Folder es g)" by simp
  next
    fix x y r assume px: "?P x" and p: "remove_empty_folders f x = (y, r)"
    show "?P y"
    proof (cases x)
      case NoSuchPath
      with px p show ?thesis by (auto simp: remove_empty_folders_def)
    next
      case (Folder es1 g1)
      with px have g1: "g1 = g" and f1: "files_of es1 = files_of es"
        and w1: "wf_entries es \<longrightarrow> wf_entries es1"
        and l1: "\<forall>p c. lookup es p = Some (File c) \<longrightarrow> lookup es1 p = Some (File c)"
        by auto
      from pass_keeps[OF p[unfolded Folder]] g1 f1 w1 l1 show ?thesis
        by auto
    qed
  qed
  then show ?thesis .
qed

subsection \<open>The folder after a refresh\<close>

text \<open>
  After a refresh that returned, the folder is gone (nothing was left in it), or: every
  file of the branch is at its path with its content, every file outside \<^verbatim>\<open>.git\<close> is a
  file of the branch, a further pass removes nothing, and the branch is checked out. In
  such a folder a refresh changes nothing (lemma \<open>refresh_stable\<close>).
\<close>

lemma map_add_twice: "(m ++ u) ++ u = m ++ u"
  by (rule ext) (simp add: map_add_def split: option.splits)

lemma refresh_stable:
  assumes d: "disk w = Folder es (Some g)" and o: "remotes g ''origin'' = Some url"
    and rf: "refs g ++ upstream w url = refs g"
    and tg: "refs g b = Some target" "tracked g = target" "heads g b = Some target" "head g = Some b"
    and present: "\<forall>(p, c) \<in> set target. lookup es p = Some (File c)"
    and nountr: "\<forall>p \<in> set (files_of es). hd p \<noteq> ''.git'' \<longrightarrow> p \<in> set (map fst target)"
    and stable: "remove_empty_folders (folder self) (Folder es (Some g)) = (Folder es (Some g), False)"
    and call: "fetch_latest self b w = Some (r, w')"
  shows "disk w' = disk w"
proof -
  obtain r1 wa where f: "fetched url (ssh_command self) es g w = (r1, wa)"
    by (cases "fetched url (ssh_command self) es g w")
  show ?thesis
  proof (cases r1)
    case (Inl e)
    with call f have "w' = wa" by (simp add: fetch_latest_unfold[OF d o])
    with fetched_error[OF f[unfolded Inl]] show ?thesis by simp
  next
    case (Inr u)
    have gg: "g\<lparr>refs := refs g\<rparr> = g" by simp
    from fetched_ok[OF f[unfolded Inr]] rf gg have da: "disk wa = Folder es (Some g)" by simp
    from call f Inr have af: "after_fetch self b wa = Some (r, w')"
      by (simp add: fetch_latest_unfold[OF d o])
    have stale: "filter (\<lambda>p. p \<notin> set (map fst target)) (map fst (tracked g)) = []"
      using tg(2) by simp
    have g2: "g\<lparr>heads := (heads g)(b \<mapsto> target), head := Some b, tracked := target\<rparr> = g"
      using tg by (simp add: fun_upd_idem)
    have co: "checkout b wa = (Inr (), wa\<lparr>disk := Folder es (Some g), trace := trace wa @ [Checkout b]\<rparr>)"
      using da tg(1) stale g2 fold_write_triv[OF present]
      by (simp add: checkout_def Let_def)
    let ?wb = "wa\<lparr>disk := Folder es (Some g), trace := trace wa @ [Checkout b]\<rparr>"
    have "filter (\<lambda>p. p \<notin> set (map fst target)) (files_of (filter (\<lambda>e. fst e \<noteq> ''.git'') es)) = []"
      using nountr by (auto simp: files_of_filter filter_empty_conv)
    then have un: "untracked_files ?wb = Inr []"
      using tg(2) by (simp add: untracked_files_def)
    have lp: "remove_empty_folders_loop (folder self) (disk ?wb) = Some (Folder es (Some g))"
      using loop_stop[OF stable] by simp
    from af co un lp have "w' = ?wb\<lparr>disk := Folder es (Some g)\<rparr>"
      by (simp add: after_fetch_def)
    with d show ?thesis by simp
  qed
qed

lemma refresh_result:
  assumes wf: "wf_world w" and call: "fetch_latest self b w = Some (Inr (), w1)"
  shows "upstream w1 = upstream w \<and>
     (disk w1 = NoSuchPath \<or>
      (\<exists>es g url target. disk w1 = Folder es (Some g) \<and> remotes g ''origin'' = Some url \<and>
         refs g ++ upstream w url = refs g \<and>
         refs g b = Some target \<and> tracked g = target \<and> heads g b = Some target \<and> head g = Some b \<and>
         (\<forall>(p, c) \<in> set target. lookup es p = Some (File c)) \<and>
         (\<forall>p \<in> set (files_of es). hd p \<noteq> ''.git'' \<longrightarrow> p \<in> set (map fst target)) \<and>
         wf_entries es \<and> (\<forall>b m. refs g b = Some m \<longrightarrow> wf_manifest m) \<and>
         remove_empty_folders (folder self) (Folder es (Some g)) = (Folder es (Some g), False)))"
proof -
  have "\<exists>es g url. disk w = Folder es (Some g) \<and> remotes g ''origin'' = Some url"
  proof (rule ccontr)
    assume "\<not> ?thesis"
    from fetch_latest_no_origin[OF this, of self b] call show False by auto
  qed
  then obtain es g url where d: "disk w = Folder es (Some g)" and o: "remotes g ''origin'' = Some url"
    by blast
  obtain r1 wa where f: "fetched url (ssh_command self) es g w = (r1, wa)"
    by (cases "fetched url (ssh_command self) es g w")
  from call f have r1: "r1 = Inr ()" and af: "after_fetch self b wa = Some (Inr (), w1)"
    by (auto simp: fetch_latest_unfold[OF d o] split: sum.splits)
  let ?ga = "g\<lparr>refs := refs g ++ upstream w url\<rparr>"
  from fetched_ok[OF f[unfolded r1]] have da: "disk wa = Folder es (Some ?ga)"
    and ua: "upstream wa = upstream w" by simp_all
  obtain rb wb where co: "checkout b wa = (rb, wb)" by (cases "checkout b wa")
  with af have rb: "rb = Inr ()" by (auto simp: after_fetch_def split: sum.splits)
  from checkout_ok[OF co[unfolded rb] da] obtain target where
    t: "refs ?ga b = Some target"
    and wb: "wb = wa\<lparr>disk := Folder
                (fold (\<lambda>(p, c). write_file p c) target
                   (fold remove_file
                      (filter (\<lambda>p. p \<notin> set (map fst target)) (map fst (tracked ?ga))) es))
                (Some (?ga\<lparr>heads := (heads ?ga)(b \<mapsto> target), head := Some b, tracked := target\<rparr>)),
              trace := trace wa @ [Checkout b]\<rparr>"
    by blast
  let ?es2 = "fold (\<lambda>(p, c). write_file p c) target
                   (fold remove_file
                      (filter (\<lambda>p. p \<notin> set (map fst target)) (map fst (tracked ?ga))) es)"
  let ?gb = "?ga\<lparr>heads := (heads ?ga)(b \<mapsto> target), head := Some b, tracked := target\<rparr>"
  let ?names = "filter (\<lambda>p. p \<notin> set (map fst target)) (files_of (filter (\<lambda>e. fst e \<noteq> ''.git'') ?es2))"
  have db: "disk wb = Folder ?es2 (Some ?gb)" using wb by simp
  have ub: "upstream wb = upstream w" using wb ua by simp
  have un: "untracked_files wb = Inr ?names" using db by (simp add: untracked_files_def)
  obtain rc wc where ul: "unlink_all (folder self) ?names wb = (rc, wc)"
    by (cases "unlink_all (folder self) ?names wb")
  with af co rb un have rc: "rc = Inr ()"
    by (auto simp: after_fetch_def split: sum.splits)
  from unlink_all_contents[OF ul[unfolded rc] db] obtain es3 where
    wc: "wc = wb\<lparr>disk := Folder es3 (Some ?gb)\<rparr>"
    and wf3: "wf_entries ?es2 \<longrightarrow> wf_entries es3"
    and l3: "\<forall>p c. (lookup es3 p = Some (File c)) = (p \<notin> set ?names \<and> lookup ?es2 p = Some (File c))"
    by blast
  obtain d' where lp: "remove_empty_folders_loop (folder self) (Folder es3 (Some ?gb)) = Some d'"
    and w1: "w1 = wc\<lparr>disk := d'\<rparr>"
    using af co rb un ul rc wc
    by (auto simp: after_fetch_def split: option.splits)
  have u1: "upstream w1 = upstream w" using w1 wc ub by simp
  have wfm: "wf_manifest target"
  proof -
    from t have "upstream w url b = Some target \<or> refs g b = Some target"
      by (auto simp: map_add_def split: option.splits)
    with wf d show ?thesis by (auto simp: wf_world_def)
  qed
  have wfe: "wf_entries es" using wf d by (simp add: wf_world_def)
  then have wf2: "wf_entries ?es2" by (intro wf_fold_write wf_fold_remove)
  with wf3 have wfe3: "wf_entries es3" by simp
  have p2: "\<forall>(p, c) \<in> set target. lookup ?es2 p = Some (File c)"
    using fold_write_lookup[OF wfm] by blast
  have p3: "\<forall>(p, c) \<in> set target. lookup es3 p = Some (File c)"
  proof (clarify)
    fix p c assume pc: "(p, c) \<in> set target"
    then have "p \<in> set (map fst target)" by force
    then have "p \<notin> set ?names" by simp
    moreover from p2 pc have "lookup ?es2 p = Some (File c)" by auto
    ultimately show "lookup es3 p = Some (File c)" using l3 by blast
  qed
  have n3: "\<forall>p \<in> set (files_of es3). hd p \<noteq> ''.git'' \<longrightarrow> p \<in> set (map fst target)"
  proof (intro ballI impI)
    fix p assume pf: "p \<in> set (files_of es3)" and hp: "hd p \<noteq> ''.git''"
    from files_lookup[OF wfe3 pf] obtain c where "lookup es3 p = Some (File c)" by blast
    with l3 have nn: "p \<notin> set ?names" and l2: "lookup ?es2 p = Some (File c)" by blast+
    from lookup_files[OF l2] hp have "p \<in> set (files_of (filter (\<lambda>e. fst e \<noteq> ''.git'') ?es2))"
      by (simp add: files_of_filter)
    with nn show "p \<in> set (map fst target)" by auto
  qed
  show ?thesis
  proof (cases "d' = NoSuchPath")
    case True
    with w1 u1 show ?thesis by simp
  next
    case False
    with loop_keeps[OF lp] obtain es4 where
      d4: "d' = Folder es4 (Some ?gb)" and f4: "files_of es4 = files_of es3"
      and w4: "wf_entries es3 \<longrightarrow> wf_entries es4"
      and l4: "\<forall>p c. lookup es3 p = Some (File c) \<longrightarrow> lookup es4 p = Some (File c)"
      by blast
    have st: "remove_empty_folders (folder self) (Folder es4 (Some ?gb)) = (Folder es4 (Some ?gb), False)"
      using loop_result_stable[OF lp] d4 by simp
    have wf4: "wf_entries es4" using w4 wfe3 by simp
    have "disk w1 = Folder es4 (Some ?gb)" using w1 d4 by simp
    moreover have "remotes ?gb ''origin'' = Some url" using o by simp
    moreover have "refs ?gb ++ upstream w url = refs ?gb" by (simp add: map_add_twice)
    moreover have "refs ?gb b = Some target" using t by simp
    moreover have "tracked ?gb = target" "heads ?gb b = Some target" "head ?gb = Some b" by simp_all
    moreover have "\<forall>(p, c) \<in> set target. lookup es4 p = Some (File c)" using p3 l4 by auto
    moreover have "\<forall>p \<in> set (files_of es4). hd p \<noteq> ''.git'' \<longrightarrow> p \<in> set (map fst target)"
      using n3 f4 by simp
    moreover have "\<forall>b m. refs ?gb b = Some m \<longrightarrow> wf_manifest m"
    proof (intro allI impI)
      fix b' m assume "refs ?gb b' = Some m"
      then have "upstream w url b' = Some m \<or> refs g b' = Some m"
        by (auto simp: map_add_def split: option.splits)
      with wf d show "wf_manifest m" by (auto simp: wf_world_def)
    qed
    ultimately show ?thesis using u1 st wf4 by blast
  qed
qed

lemma wf_world_refresh:
  assumes "wf_world w" and "fetch_latest self b w = Some (Inr (), w1)"
  shows "wf_world w1"
  using refresh_result[OF assms] assms(1)
  by (auto simp: wf_world_def)

subsection \<open>A folder whose path does not start with \<^verbatim>\<open>.git\<close>\<close>

text \<open>
  Below a folder whose path is not empty and does not start with \<^verbatim>\<open>.git\<close>, no path of the
  walk starts with \<^verbatim>\<open>.git\<close>: the test of line 51 never holds, and a pass that removes
  nothing has found no empty directory at all.
\<close>

lemma join_not_git:
  assumes "root \<noteq> []" and "\<not> startswith root ''.git''"
  shows "join root name \<noteq> [] \<and> \<not> startswith (join root name) ''.git''"
proof -
  have ne: "join root name \<noteq> []"
    using assms(1) by (auto simp: join_def)
  have "\<not> startswith (join root name) ''.git''"
  proof (cases "name \<noteq> [] \<and> hd name = CHR ''/''")
    case True
    then obtain rest where "name = CHR ''/'' # rest" by (cases name) auto
    with True show ?thesis by (simp add: join_def startswith_def)
  next
    case False
    then have j: "join root name = root @ (if last root = CHR ''/'' then name else ''/'' @ name)"
      using assms(1) by (auto simp: join_def)
    show ?thesis
    proof (cases root)
      case Nil
      with assms(1) show ?thesis by simp
    next
      case (Cons a r1)
      show ?thesis
      proof (cases r1)
        case Nil
        with Cons j assms(2) show ?thesis
          by (auto simp: startswith_def)
      next
        case (Cons b r2)
        note c2 = Cons
        show ?thesis
        proof (cases r2)
          case Nil
          with c2 \<open>root = a # r1\<close> j assms(2) show ?thesis
            by (auto simp: startswith_def)
        next
          case (Cons c r3)
          note c3 = Cons
          show ?thesis
          proof (cases r3)
            case Nil
            with c3 c2 \<open>root = a # r1\<close> j assms(2) show ?thesis
              by (auto simp: startswith_def)
          next
            case (Cons d r4)
            with c3 c2 \<open>root = a # r1\<close> j assms(2) show ?thesis
              by (auto simp: startswith_def)
          qed
        qed
      qed
    qed
  qed
  with ne show ?thesis by simp
qed

lemma walk_stable_no_empty:
  "root \<noteq> [] \<Longrightarrow> \<not> startswith root ''.git'' \<Longrightarrow> walk_remove root es r = (res, False) \<Longrightarrow>
     es \<noteq> [] \<and> empty_dirs es = []"
  "root \<noteq> [] \<Longrightarrow> \<not> startswith root ''.git'' \<Longrightarrow> walk_children root es r = (es', False) \<Longrightarrow>
     empty_dirs es = []"
proof (induction root es r and root es r arbitrary: res and es' rule: walk_remove_walk_children.induct)
  case (1 root es removed)
  obtain es1 r1 where c: "walk_children root es removed = (es1, r1)"
    by (cases "walk_children root es removed")
  with "1.prems" have ne: "es \<noteq> []" and r1: "r1 = False"
    by (auto simp: walk_remove.simps[of root es removed] snapshot_empty split: if_splits)
  from "1.IH"[OF refl refl "1.prems"(1,2) c[unfolded r1]] ne show ?case by simp
next
  case (2 root removed)
  then show ?case by simp
next
  case (3 root name c es removed)
  then show ?case by (auto split: prod.splits)
next
  case (4 root name sub es removed)
  obtain res1 r1 where w: "walk_remove (join root name) sub removed = (res1, r1)"
    by (cases "walk_remove (join root name) sub removed")
  obtain es1 r2 where c: "walk_children root es r1 = (es1, r2)"
    by (cases "walk_children root es r1")
  from "4.prems"(3) w c have r2: "r2 = False" by (cases res1) auto
  from walk_facts(2)[where root=root and es=es and r=r1] c r2 have r1: "r1 = False" by auto
  from join_not_git[OF "4.prems"(1,2), of name]
  have j: "join root name \<noteq> []" "\<not> startswith (join root name) ''.git''" by simp_all
  from "4.IH"(1)[OF j w[unfolded r1]] have a: "sub \<noteq> []" "empty_dirs sub = []" by simp_all
  have b: "empty_dirs es = []"
    using "4.IH"(2)[OF _ _ "4.prems"(1,2)] "4.IH"(3)[OF _ _ "4.prems"(1,2)] w c r2
    by (cases res1) auto
  from a b show ?case by simp
qed

lemma pass_stable_no_empty:
  assumes "f \<noteq> []" "\<not> startswith f ''.git''"
    and "remove_empty_folders f (Folder es g) = (Folder es g, False)"
  shows "es \<noteq> [] \<and> empty_dirs es = []"
proof -
  obtain res r where w: "walk_remove f es False = (res, r)" by (cases "walk_remove f es False")
  with assms(1,3) have "r = False" by (cases res) (auto simp: remove_empty_folders_def)
  with walk_stable_no_empty(1)[OF assms(1,2)] w show ?thesis by blast
qed

text \<open>
  What a refresh that returns leaves: no untracked file, every file of the branch at its
  path, and, when the path of the folder is not empty and does not start with \<^verbatim>\<open>.git\<close>, no
  empty directory anywhere in the folder, the metadata directory included.
\<close>

lemma refresh_clean:
  assumes "wf_world w" and "fetch_latest self b w = Some (Inr (), w1)"
    and "disk w1 = Folder es (Some g)"
  shows "untracked_files w1 = Inr [] \<and>
         refs g b = Some (tracked g) \<and>
         (\<forall>(p, c) \<in> set (tracked g). lookup es p = Some (File c)) \<and>
         (folder self \<noteq> [] \<and> \<not> startswith (folder self) ''.git'' \<longrightarrow> empty_dirs es = [])"
proof -
  from refresh_result[OF assms(1,2)] assms(3) obtain target where
    t: "refs g b = Some target" "tracked g = target"
    and pr: "\<forall>(p, c) \<in> set target. lookup es p = Some (File c)"
    and nu: "\<forall>p \<in> set (files_of es). hd p \<noteq> ''.git'' \<longrightarrow> p \<in> set (map fst target)"
    and st: "remove_empty_folders (folder self) (Folder es (Some g)) = (Folder es (Some g), False)"
    by auto
  have "filter (\<lambda>p. p \<notin> set (map fst target)) (files_of (filter (\<lambda>e. fst e \<noteq> ''.git'') es)) = []"
    using nu by (auto simp: files_of_filter filter_empty_conv)
  then have "untracked_files w1 = Inr []"
    using assms(3) t(2) by (simp add: untracked_files_def)
  moreover have "folder self \<noteq> [] \<and> \<not> startswith (folder self) ''.git'' \<longrightarrow> empty_dirs es = []"
    using pass_stable_no_empty[OF _ _ st] by blast
  ultimately show ?thesis using t pr by simp
qed

subsection \<open>Evaluating the concrete world\<close>

lemmas eval_defs = fetch_latest_def custom_environment_def update_environment_def fetch_retry_def
  origin_fetch_def checkout_def untracked_files_def os_unlink_def remove_empty_folders_def
  walk_remove.simps join_def startswith_def Let_def AList.delete_eq

lemmas example_defs = example_world_def example_index_def example_repo_def example_entries_def
  empty_repo_def

lemma example_world_simps:
  "github_branch example_world = ''main''"
  "github_private_key example_world = None"
  "github_url example_world = ''https://github.com/OpenTTD/BaNaNaS''"
  "disk example_world = Folder example_entries (Some example_repo)"
  "template example_world = [(''HEAD'', File ''ref: refs/heads/main''),
                             (''refs'', Dir [(''heads'', Dir []), (''tags'', Dir [])])]"
  "environment example_world = Map.empty"
  "net example_world = []"
  "trace example_world = []"
  "tmp_name example_world = ''/tmp/tmpkey''"
  "tempfiles example_world = []"
  by (simp_all add: example_world_def)

lemma example_refresh:
  "\<exists>w1. fetch_latest example_index ''main'' example_world = Some (Inr (), w1)"
  apply (simp add: eval_defs example_defs)
  apply (subst loop_step, simp add: eval_defs)
  apply (subst loop_step, simp add: eval_defs)
  apply (subst loop_stop, simp add: eval_defs)
  apply simp
  done

lemma example_wf: "wf_world example_world"
  by (auto simp: wf_world_def example_defs wf_manifest_def split: if_splits)

lemma example_wf_net: "wf_world (example_world\<lparr>net := n\<rparr>)"
  by (auto simp: wf_world_def example_defs wf_manifest_def split: if_splits)

lemma example_refresh_tree:
  "\<exists>w1. fetch_latest example_index ''main'' example_world = Some (Inr (), w1) \<and>
     folder_entries (disk w1) =
       Some [(''.git'', Dir [(''HEAD'', File ''ref: refs/heads/main''),
                            (''refs'', Dir [(''heads'', Dir [(''main'', File ''0'')])])]),
             (''README.md'', File ''readme''),
             (''ai'', Dir [(''index.yaml'', File ''a'')])]"
  apply (simp add: eval_defs example_defs)
  apply (subst loop_step, simp add: eval_defs)
  apply (subst loop_step, simp add: eval_defs)
  apply (subst loop_stop, simp add: eval_defs)
  apply simp
  done

section \<open>The claims\<close>

subsection \<open>C1: the pass and the metadata directory\<close>

text \<open>
  C1 says that a pass never removes \<^verbatim>\<open>.git\<close> or a directory inside it. The test of line 51
  looks at the whole path that \<^verbatim>\<open>os.walk\<close> yields, which starts with the folder that was
  passed in, not with \<^verbatim>\<open>.git\<close>. With the folder \<^verbatim>\<open>BaNaNaS\<close> the walk yields
  \<^verbatim>\<open>BaNaNaS/.git/refs/tags\<close>; the test does not hold for it, and the pass removes the empty
  directory \<^verbatim>\<open>tags\<close> inside the metadata directory and reports a removal. It is so for
  every folder whose path is not empty and does not start with \<^verbatim>\<open>.git\<close> (lemma
  \<open>join_not_git\<close>): the test holds at no directory of the walk.
\<close>

theorem remove_empty_folders_inside_git:
  "remove_empty_folders ''BaNaNaS''
     (Folder [(''.git'', Dir [(''HEAD'', File ''ref: refs/heads/main''),
                             (''refs'', Dir [(''heads'', Dir [(''main'', File ''0'')]),
                                            (''tags'', Dir [])])]),
              (''README.md'', File ''x'')] g)
   = (Folder [(''.git'', Dir [(''HEAD'', File ''ref: refs/heads/main''),
                             (''refs'', Dir [(''heads'', Dir [(''main'', File ''0'')])])]),
              (''README.md'', File ''x'')] g, True)"
  by (simp add: remove_empty_folders_def walk_remove.simps join_def startswith_def)

subsection \<open>C2: one retry after \<^verbatim>\<open>BadName\<close>\<close>

text \<open>
  C2, for a refresh of a repository whose \<^verbatim>\<open>origin\<close> has the URL \<open>url\<close>. If the first fetch
  ends with \<^verbatim>\<open>BadName\<close> there are exactly two fetch attempts in the trace: when the second
  ends with an exception \<open>e2\<close>, whichever it is, the refresh raises \<open>e2\<close> and has done
  nothing else; when the second ends well the refresh goes on. If the first fetch ends
  with an exception other than \<^verbatim>\<open>BadName\<close> there is that one attempt, and the refresh
  raises the exception and has done nothing else.
\<close>

theorem fetch_latest_retry_once:
  assumes "disk w = Folder es (Some g)" and "remotes g ''origin'' = Some url"
  shows
   "(next_outcome (net w) = Some BadName \<and> next_outcome (tl (net w)) = Some e2 \<longrightarrow>
       fetch_latest self b w =
         Some (Inl e2, w\<lparr>trace := trace w @ [Fetch url (ssh_command self), Fetch url (ssh_command self)],
                          net := tl (tl (net w))\<rparr>)) \<and>
    (next_outcome (net w) = Some BadName \<and> next_outcome (tl (net w)) = None \<longrightarrow>
       (\<exists>r w'. fetch_latest self b w = Some (r, w') \<and> net w' = tl (tl (net w)) \<and>
          (trace w' = trace w @ [Fetch url (ssh_command self), Fetch url (ssh_command self)] \<or>
           trace w' = trace w @ [Fetch url (ssh_command self), Fetch url (ssh_command self),
                                 Checkout b]))) \<and>
    (next_outcome (net w) = Some e \<and> e \<noteq> BadName \<longrightarrow>
       fetch_latest self b w =
         Some (Inl e, w\<lparr>trace := trace w @ [Fetch url (ssh_command self)], net := tl (net w)\<rparr>))"
proof (intro conjI impI)
  assume "next_outcome (net w) = Some BadName \<and> next_outcome (tl (net w)) = Some e2"
  then show "fetch_latest self b w =
         Some (Inl e2, w\<lparr>trace := trace w @ [Fetch url (ssh_command self), Fetch url (ssh_command self)],
                          net := tl (tl (net w))\<rparr>)"
    by (simp add: fetch_latest_unfold[OF assms] fetched_def)
next
  assume a: "next_outcome (net w) = Some BadName \<and> next_outcome (tl (net w)) = None"
  let ?w1 = "w\<lparr>trace := trace w @ [Fetch url (ssh_command self), Fetch url (ssh_command self)],
               net := tl (tl (net w)),
               disk := Folder es (Some (g\<lparr>refs := refs g ++ upstream w url\<rparr>))\<rparr>"
  from a have f: "fetch_latest self b w = after_fetch self b ?w1"
    by (simp add: fetch_latest_unfold[OF assms] fetched_def)
  obtain r w' where r: "after_fetch self b ?w1 = Some (r, w')"
    using after_fetch_returns[of self b ?w1] by auto
  from after_fetch_frame[OF r] f r
  show "\<exists>r w'. fetch_latest self b w = Some (r, w') \<and> net w' = tl (tl (net w)) \<and>
          (trace w' = trace w @ [Fetch url (ssh_command self), Fetch url (ssh_command self)] \<or>
           trace w' = trace w @ [Fetch url (ssh_command self), Fetch url (ssh_command self),
                                 Checkout b])"
    by auto
next
  assume "next_outcome (net w) = Some e \<and> e \<noteq> BadName"
  then show "fetch_latest self b w =
         Some (Inl e, w\<lparr>trace := trace w @ [Fetch url (ssh_command self)], net := tl (net w)\<rparr>)"
    by (simp add: fetch_latest_unfold[OF assms] fetched_def)
qed

theorem fetch_latest_retry_once_witness:
  "fetch_latest example_index ''main'' (example_world\<lparr>net := [Some BadName, Some GitCommandError, None]\<rparr>)
     = Some (Inl GitCommandError,
             example_world\<lparr>trace := [Fetch ''https://github.com/OpenTTD/BaNaNaS'' None,
                                      Fetch ''https://github.com/OpenTTD/BaNaNaS'' None],
                            net := [None]\<rparr>) \<and>
   (\<exists>r w'. fetch_latest example_index ''main'' (example_world\<lparr>net := [Some BadName]\<rparr>) = Some (r, w') \<and>
      (trace w' = [Fetch ''https://github.com/OpenTTD/BaNaNaS'' None,
                   Fetch ''https://github.com/OpenTTD/BaNaNaS'' None] \<or>
       trace w' = [Fetch ''https://github.com/OpenTTD/BaNaNaS'' None,
                   Fetch ''https://github.com/OpenTTD/BaNaNaS'' None, Checkout ''main''])) \<and>
   fetch_latest example_index ''main'' (example_world\<lparr>net := [Some GitCommandError, None]\<rparr>)
     = Some (Inl GitCommandError,
             example_world\<lparr>trace := [Fetch ''https://github.com/OpenTTD/BaNaNaS'' None],
                            net := [None]\<rparr>)"
proof -
  have d: "\<And>n. disk (example_world\<lparr>net := n\<rparr>) = Folder example_entries (Some example_repo)"
    by (simp add: example_world_def)
  have o: "remotes example_repo ''origin'' = Some ''https://github.com/OpenTTD/BaNaNaS''"
    by (simp add: example_repo_def)
  have t: "\<And>n. trace (example_world\<lparr>net := n\<rparr>) = []"
    by (simp add: example_world_def)
  have a: "fetch_latest example_index ''main'' (example_world\<lparr>net := [Some BadName, Some GitCommandError, None]\<rparr>)
     = Some (Inl GitCommandError,
             example_world\<lparr>trace := [Fetch ''https://github.com/OpenTTD/BaNaNaS'' None,
                                      Fetch ''https://github.com/OpenTTD/BaNaNaS'' None],
                            net := [None]\<rparr>)"
    using fetch_latest_retry_once[OF d o, of "[Some BadName, Some GitCommandError, None]"
            GitCommandError example_index "''main''" GitCommandError]
    by (simp add: t example_index_def)
  have b: "\<exists>r w'. fetch_latest example_index ''main'' (example_world\<lparr>net := [Some BadName]\<rparr>) = Some (r, w') \<and>
      (trace w' = [Fetch ''https://github.com/OpenTTD/BaNaNaS'' None,
                   Fetch ''https://github.com/OpenTTD/BaNaNaS'' None] \<or>
       trace w' = [Fetch ''https://github.com/OpenTTD/BaNaNaS'' None,
                   Fetch ''https://github.com/OpenTTD/BaNaNaS'' None, Checkout ''main''])"
    using fetch_latest_retry_once[OF d o, of "[Some BadName]"
            GitCommandError example_index "''main''" GitCommandError]
    by (auto simp add: t example_index_def)
  have c: "fetch_latest example_index ''main'' (example_world\<lparr>net := [Some GitCommandError, None]\<rparr>)
     = Some (Inl GitCommandError,
             example_world\<lparr>trace := [Fetch ''https://github.com/OpenTTD/BaNaNaS'' None],
                            net := [None]\<rparr>)"
    using fetch_latest_retry_once[OF d o, of "[Some GitCommandError, None]"
            GitCommandError example_index "''main''" GitCommandError]
    by (simp add: t example_index_def)
  from a b c show ?thesis by blast
qed

subsection \<open>C3: what a refresh leaves behind\<close>

text \<open>
  C3 says that after a refresh that returns, the folder has no untracked file and no empty
  directory outside \<^verbatim>\<open>.git\<close>. The test of line 51 holds for every path that starts with
  \<^verbatim>\<open>.git\<close>, and the paths of the walk start with the folder that was passed in. For the
  folder \<^verbatim>\<open>.git-index\<close> every directory is skipped: the refresh returns without an
  exception, the untracked file \<^verbatim>\<open>junk.txt\<close> is gone, and the empty directory
  \<^verbatim>\<open>empty/sub\<close> is still there. What does hold is the lemma \<open>refresh_clean\<close>: a refresh
  that returns leaves no untracked file, and no empty directory if the path of the folder
  is not empty and does not start with \<^verbatim>\<open>.git\<close>.
\<close>

theorem fetch_latest_leaves_empty_folder:
  "\<exists>w' es'.
     fetch_latest \<lparr>folder = ''.git-index'', ssh_command = None, github_private_key_file = None\<rparr>
       ''main'' example_world = Some (Inr (), w') \<and>
     folder_entries (disk w') = Some es' \<and>
     es' = [(''.git'', Dir [(''HEAD'', File ''ref: refs/heads/main''),
                           (''refs'', Dir [(''heads'', Dir [(''main'', File ''0'')]),
                                          (''tags'', Dir [])])]),
            (''empty'', Dir [(''sub'', Dir [])]),
            (''README.md'', File ''readme''),
            (''ai'', Dir [(''index.yaml'', File ''a'')])] \<and>
     empty_dirs (filter (\<lambda>e. fst e \<noteq> ''.git'') es') = [[''empty'', ''sub'']]"
  apply (simp add: eval_defs example_defs)
  apply (subst loop_stop, simp add: eval_defs)
  apply simp
  done

subsection \<open>C4: a second refresh changes nothing, after a refresh that returned\<close>

text \<open>
  C4 says that two refreshes in succession, with no change to the remote between them,
  leave the tree after the second as it was after the first, for every state. That fails
  when the first refresh raises: an exception of the fetch other than \<^verbatim>\<open>BadName\<close> leaves
  lines 75 to 83 undone and the tree untouched, and the second refresh is then the one
  that changes it (the concrete world after the witness below).

  C4 as amended, for a well-formed world \<open>w\<close>: after a refresh that returned in the world
  \<open>w1\<close>, a second refresh of the same branch in a world \<open>w1'\<close> with the folder as the first
  refresh left it and the remote as it was, whatever the network does this time, leaves
  the folder, and the repository in it, exactly as the first refresh left them, whether
  the second refresh returns or raises.
\<close>

theorem fetch_latest_idempotent:
  assumes "wf_world w"
    and "fetch_latest self b w = Some (Inr (), w1)"
    and "disk w1' = disk w1" and "upstream w1' = upstream w1"
    and "fetch_latest self b w1' = Some (r, w2)"
  shows "disk w2 = disk w1"
proof -
  from refresh_result[OF assms(1,2)] have u: "upstream w1 = upstream w"
    and c: "disk w1 = NoSuchPath \<or>
      (\<exists>es g url target. disk w1 = Folder es (Some g) \<and> remotes g ''origin'' = Some url \<and>
         refs g ++ upstream w url = refs g \<and>
         refs g b = Some target \<and> tracked g = target \<and> heads g b = Some target \<and> head g = Some b \<and>
         (\<forall>(p, c) \<in> set target. lookup es p = Some (File c)) \<and>
         (\<forall>p \<in> set (files_of es). hd p \<noteq> ''.git'' \<longrightarrow> p \<in> set (map fst target)) \<and>
         wf_entries es \<and> (\<forall>b m. refs g b = Some m \<longrightarrow> wf_manifest m) \<and>
         remove_empty_folders (folder self) (Folder es (Some g)) = (Folder es (Some g), False))"
    by blast+
  from c show ?thesis
  proof
    assume "disk w1 = NoSuchPath"
    with assms(3) have n: "disk w1' = NoSuchPath" by simp
    then have "\<not> (\<exists>es g url. disk w1' = Folder es (Some g) \<and> remotes g ''origin'' = Some url)"
      by simp
    from fetch_latest_no_origin[OF this, of self b] assms(5) have "w2 = w1'" by auto
    with n assms(3) show ?thesis by simp
  next
    assume "\<exists>es g url target. disk w1 = Folder es (Some g) \<and> remotes g ''origin'' = Some url \<and>
         refs g ++ upstream w url = refs g \<and>
         refs g b = Some target \<and> tracked g = target \<and> heads g b = Some target \<and> head g = Some b \<and>
         (\<forall>(p, c) \<in> set target. lookup es p = Some (File c)) \<and>
         (\<forall>p \<in> set (files_of es). hd p \<noteq> ''.git'' \<longrightarrow> p \<in> set (map fst target)) \<and>
         wf_entries es \<and> (\<forall>b m. refs g b = Some m \<longrightarrow> wf_manifest m) \<and>
         remove_empty_folders (folder self) (Folder es (Some g)) = (Folder es (Some g), False)"
    then obtain es g url target where
      d: "disk w1' = Folder es (Some g)" and o: "remotes g ''origin'' = Some url"
      and rf: "refs g ++ upstream w1' url = refs g"
      and tg: "refs g b = Some target" "tracked g = target" "heads g b = Some target" "head g = Some b"
      and pr: "\<forall>(p, c) \<in> set target. lookup es p = Some (File c)"
      and nu: "\<forall>p \<in> set (files_of es). hd p \<noteq> ''.git'' \<longrightarrow> p \<in> set (map fst target)"
      and st: "remove_empty_folders (folder self) (Folder es (Some g)) = (Folder es (Some g), False)"
      using u assms(3,4) by auto
    from refresh_stable[OF d o rf tg pr nu st assms(5)] assms(3) show ?thesis by simp
  qed
qed

theorem fetch_latest_idempotent_witness:
  "\<exists>w1 r w2.
     wf_world example_world \<and>
     fetch_latest example_index ''main'' example_world = Some (Inr (), w1) \<and>
     folder_entries (disk w1) =
       Some [(''.git'', Dir [(''HEAD'', File ''ref: refs/heads/main''),
                            (''refs'', Dir [(''heads'', Dir [(''main'', File ''0'')])])]),
             (''README.md'', File ''readme''),
             (''ai'', Dir [(''index.yaml'', File ''a'')])] \<and>
     fetch_latest example_index ''main'' (w1\<lparr>net := [Some BadName]\<rparr>) = Some (r, w2) \<and>
     disk w2 = disk w1"
proof -
  from example_refresh_tree obtain w1 where
    a: "fetch_latest example_index ''main'' example_world = Some (Inr (), w1)"
    and t: "folder_entries (disk w1) =
       Some [(''.git'', Dir [(''HEAD'', File ''ref: refs/heads/main''),
                            (''refs'', Dir [(''heads'', Dir [(''main'', File ''0'')])])]),
             (''README.md'', File ''readme''),
             (''ai'', Dir [(''index.yaml'', File ''a'')])]"
    by blast
  let ?w = "w1\<lparr>net := [Some BadName]\<rparr>"
  obtain r w2 where b: "fetch_latest example_index ''main'' ?w = Some (r, w2)"
    using fetch_latest_returns[of example_index "''main''" ?w] by auto
  have d: "disk ?w = disk w1" and u: "upstream ?w = upstream w1" by simp_all
  from fetch_latest_idempotent[OF example_wf a d u b] example_wf a t b show ?thesis by blast
qed

text \<open>
  The first refresh raises: in the concrete world the one fetch attempt ends with
  \<^verbatim>\<open>GitCommandError\<close>, the refresh raises it, and the folder still has \<^verbatim>\<open>junk.txt\<close> and
  \<^verbatim>\<open>empty/sub\<close>. The second refresh, in the world the first left and with the same remote,
  returns, and the folder is another one.
\<close>

theorem fetch_latest_idempotent_counterexample:
  "wf_world (example_world\<lparr>net := [Some GitCommandError]\<rparr>) \<and>
   fetch_latest example_index ''main'' (example_world\<lparr>net := [Some GitCommandError]\<rparr>)
     = Some (Inl GitCommandError,
             example_world\<lparr>trace := [Fetch ''https://github.com/OpenTTD/BaNaNaS'' None]\<rparr>) \<and>
   folder_entries (disk (example_world\<lparr>trace := [Fetch ''https://github.com/OpenTTD/BaNaNaS'' None]\<rparr>))
     = Some [(''.git'', Dir [(''HEAD'', File ''ref: refs/heads/main''),
                            (''refs'', Dir [(''heads'', Dir [(''main'', File ''0'')]), (''tags'', Dir [])])]),
             (''junk.txt'', File ''junk''),
             (''empty'', Dir [(''sub'', Dir [])])] \<and>
   refreshed (fetch_latest example_index ''main''
                (example_world\<lparr>trace := [Fetch ''https://github.com/OpenTTD/BaNaNaS'' None]\<rparr>))
     = Some (Inr (),
             Some [(''.git'', Dir [(''HEAD'', File ''ref: refs/heads/main''),
                                  (''refs'', Dir [(''heads'', Dir [(''main'', File ''0'')])])]),
                   (''README.md'', File ''readme''),
                   (''ai'', Dir [(''index.yaml'', File ''a'')])])"
proof -
  have a: "fetch_latest example_index ''main'' (example_world\<lparr>net := [Some GitCommandError]\<rparr>)
     = Some (Inl GitCommandError,
             example_world\<lparr>trace := [Fetch ''https://github.com/OpenTTD/BaNaNaS'' None]\<rparr>)"
    by (simp add: eval_defs example_defs)
  have b: "folder_entries (disk (example_world\<lparr>trace := [Fetch ''https://github.com/OpenTTD/BaNaNaS'' None]\<rparr>))
     = Some [(''.git'', Dir [(''HEAD'', File ''ref: refs/heads/main''),
                            (''refs'', Dir [(''heads'', Dir [(''main'', File ''0'')]), (''tags'', Dir [])])]),
             (''junk.txt'', File ''junk''),
             (''empty'', Dir [(''sub'', Dir [])])]"
    by (simp add: example_defs)
  have c: "refreshed (fetch_latest example_index ''main''
                (example_world\<lparr>trace := [Fetch ''https://github.com/OpenTTD/BaNaNaS'' None]\<rparr>))
     = Some (Inr (),
             Some [(''.git'', Dir [(''HEAD'', File ''ref: refs/heads/main''),
                                  (''refs'', Dir [(''heads'', Dir [(''main'', File ''0'')])])]),
                   (''README.md'', File ''readme''),
                   (''ai'', Dir [(''index.yaml'', File ''a'')])])"
    apply (simp add: eval_defs example_defs refreshed_def)
    apply (subst loop_step, simp add: eval_defs)
    apply (subst loop_step, simp add: eval_defs)
    apply (subst loop_stop, simp add: eval_defs)
    apply simp
    done
  from example_wf_net a b c show ?thesis by blast
qed

subsection \<open>C5: the remote \<^verbatim>\<open>origin\<close> after the constructor\<close>

text \<open>
  C5: the constructor returns an object; in the world it leaves, the folder holds a
  repository whose remote \<^verbatim>\<open>origin\<close> has the configured URL, and no fetch has been
  attempted (the trace is as before). If a repository was there, its entries and
  everything in it but the URL of \<^verbatim>\<open>origin\<close> are as before: a missing \<^verbatim>\<open>origin\<close> is created
  with the URL, an \<^verbatim>\<open>origin\<close> with another URL gets the URL.
\<close>

theorem Index_init_origin:
  "\<exists>self w' es' g'.
     Index_init base w = (Inr self, w') \<and> trace w' = trace w \<and>
     disk w' = Folder es' (Some g') \<and> remotes g' ''origin'' = Some (github_url w) \<and>
     (\<forall>es g. disk w = Folder es (Some g) \<longrightarrow>
        es' = es \<and> g' = g\<lparr>remotes := (remotes g)(''origin'' \<mapsto> github_url w)\<rparr>)"
proof -
  obtain es g where r: "Repo_init (template w) (disk w) = Folder es (Some g)"
    using Repo_init_repo by blast
  have t: "trace (snd (write_private_key w)) = trace w"
    by (auto simp: write_private_key_def split: option.splits)
  have "\<forall>es0 g0. disk w = Folder es0 (Some g0) \<longrightarrow> es = es0 \<and> g = g0"
    using r by (auto simp: Repo_init_def)
  then show ?thesis
    using t by (auto simp add: Index_init_unfold[OF r])
qed

theorem Index_init_origin_witness:
  "\<exists>self w'.
     Index_init ''BaNaNaS'' (example_world\<lparr>github_url := ''git@github.com:OpenTTD/BaNaNaS.git''\<rparr>)
       = (Inr self, w') \<and>
     trace w' = [] \<and>
     disk w' = Folder example_entries
                 (Some (example_repo\<lparr>remotes := [''origin'' \<mapsto> ''git@github.com:OpenTTD/BaNaNaS.git'']\<rparr>))"
  using Index_init_origin[of "''BaNaNaS''"
          "example_world\<lparr>github_url := ''git@github.com:OpenTTD/BaNaNaS.git''\<rparr>"]
  by (auto simp: example_world_def example_repo_def)

subsection \<open>C6: no repository at the folder\<close>

text \<open>
  C6: when nothing is at the path, opening raises \<^verbatim>\<open>NoSuchPathError\<close>; when a directory
  without a repository is there, opening raises \<^verbatim>\<open>InvalidGitRepositoryError\<close>. In both
  cases \<^verbatim>\<open>Repo.init\<close> puts a new, empty repository there, and the constructor goes on
  exactly as if it had found that repository: it returns an object and raises nothing.
\<close>

theorem Index_init_no_repository:
  assumes "disk w = NoSuchPath \<or> disk w = Folder es None"
  shows "Repo_open (disk w) =
           Inl (if disk w = NoSuchPath then NoSuchPathError else InvalidGitRepositoryError) \<and>
     (\<exists>es'. Repo_init (template w) (disk w) = Folder es' (Some empty_repo)) \<and>
     Index_init base w = Index_init base (w\<lparr>disk := Repo_init (template w) (disk w)\<rparr>) \<and>
     (\<exists>self w' es'. Index_init base w = (Inr self, w') \<and>
        disk w' = Folder es' (Some (empty_repo\<lparr>remotes := [''origin'' \<mapsto> github_url w]\<rparr>)))"
proof -
  obtain es' where r: "Repo_init (template w) (disk w) = Folder es' (Some empty_repo)"
    using assms by (auto simp: Repo_init_def)
  let ?w = "w\<lparr>disk := Repo_init (template w) (disk w)\<rparr>"
  have r2: "Repo_init (template ?w) (disk ?w) = Folder es' (Some empty_repo)"
    using r by (simp add: Repo_init_def)
  have k: "write_private_key ?w =
      (fst (write_private_key w),
       (snd (write_private_key w))\<lparr>disk := Repo_init (template w) (disk w)\<rparr>)"
    by (auto simp: write_private_key_def split: option.splits)
  have a: "Index_init base w = Index_init base ?w"
    by (simp add: Index_init_unfold[OF r] Index_init_unfold[OF r2] k)
  have b: "Repo_open (disk w) =
           Inl (if disk w = NoSuchPath then NoSuchPathError else InvalidGitRepositoryError)"
    using assms by (auto simp: Repo_open_def)
  have c: "\<exists>self w' es'. Index_init base w = (Inr self, w') \<and>
        disk w' = Folder es' (Some (empty_repo\<lparr>remotes := [''origin'' \<mapsto> github_url w]\<rparr>))"
    by (simp add: Index_init_unfold[OF r] empty_repo_def)
  from a b c r show ?thesis by blast
qed

theorem Index_init_no_repository_witness:
  "(\<exists>self w'. Index_init ''BaNaNaS'' (example_world\<lparr>disk := NoSuchPath\<rparr>) = (Inr self, w')) \<and>
   Index_init ''BaNaNaS'' (example_world\<lparr>disk := NoSuchPath\<rparr>) =
     Index_init ''BaNaNaS''
       (example_world\<lparr>disk := Folder [(''.git'', Dir (template example_world))] (Some empty_repo)\<rparr>) \<and>
   (\<exists>self w'. Index_init ''BaNaNaS'' (example_world\<lparr>disk := Folder [(''junk.txt'', File ''junk'')] None\<rparr>)
      = (Inr self, w')) \<and>
   Index_init ''BaNaNaS'' (example_world\<lparr>disk := Folder [(''junk.txt'', File ''junk'')] None\<rparr>) =
     Index_init ''BaNaNaS''
       (example_world\<lparr>disk := Folder [(''junk.txt'', File ''junk''),
                                       (''.git'', Dir (template example_world))] (Some empty_repo)\<rparr>)"
proof -
  let ?A = "example_world\<lparr>disk := NoSuchPath\<rparr>"
  let ?B = "example_world\<lparr>disk := Folder [(''junk.txt'', File ''junk'')] None\<rparr>"
  have a: "disk ?A = NoSuchPath \<or> disk ?A = Folder [] None"
    by simp
  have b: "disk ?B = NoSuchPath \<or> disk ?B = Folder [(''junk.txt'', File ''junk'')] None"
    by simp
  note A = Index_init_no_repository[OF a, of "''BaNaNaS''"]
  note B = Index_init_no_repository[OF b, of "''BaNaNaS''"]
  have a1: "\<exists>self w'. Index_init ''BaNaNaS'' ?A = (Inr self, w')" using A by blast
  have b1: "\<exists>self w'. Index_init ''BaNaNaS'' ?B = (Inr self, w')" using B by blast
  have a2: "Index_init ''BaNaNaS'' ?A = Index_init ''BaNaNaS''
       (example_world\<lparr>disk := Folder [(''.git'', Dir (template example_world))] (Some empty_repo)\<rparr>)"
    using A by (simp add: Repo_init_def)
  have b2: "Index_init ''BaNaNaS'' ?B = Index_init ''BaNaNaS''
       (example_world\<lparr>disk := Folder [(''junk.txt'', File ''junk''),
                                       (''.git'', Dir (template example_world))] (Some empty_repo)\<rparr>)"
    using B by (simp add: Repo_init_def)
  from a1 a2 b1 b2 show ?thesis by blast
qed

subsection \<open>C7: the ssh command of the fetches\<close>

text \<open>
  C7, for an object that the constructor made in the world \<open>w0\<close> and any later refresh with
  it. Without a private key (line 25 takes an empty key for none) the object has no ssh
  command; with a key the ssh command is \<^verbatim>\<open>ssh -i\<close> and the name of the temporary file,
  which holds the key. Every fetch attempt of the refresh, the retry too, ran with
  exactly the ssh command of the object as \<^verbatim>\<open>GIT_SSH_COMMAND\<close>: the variable was not set
  when there is no ssh command. A refresh of a repository with an \<^verbatim>\<open>origin\<close> has such an
  attempt.
\<close>

theorem fetch_ssh_command:
  assumes "Index_init base w0 = (Inr self, w1)" and "fetch_latest self b w = Some (r, w')"
  shows "ssh_command self =
           (case github_private_key w0 of
              None \<Rightarrow> None
            | Some key \<Rightarrow> if key = [] then None else Some (''ssh -i '' @ tmp_name w0)) \<and>
         (\<forall>key. github_private_key w0 = Some key \<and> key \<noteq> [] \<longrightarrow>
            (tmp_name w0, key) \<in> set (tempfiles w1)) \<and>
         (\<exists>t. trace w' = trace w @ t \<and>
            (\<forall>url c. Fetch url c \<in> set t \<longrightarrow> c = ssh_command self) \<and>
            (\<forall>es g url. disk w = Folder es (Some g) \<and> remotes g ''origin'' = Some url \<longrightarrow>
               Fetch url (ssh_command self) \<in> set t))"
proof -
  obtain es g where r: "Repo_init (template w0) (disk w0) = Folder es (Some g)"
    using Repo_init_repo by blast
  from assms(1) have
    "ssh_command self = snd (fst (write_private_key w0))"
    "tempfiles w1 = tempfiles (snd (write_private_key w0))"
    by (auto simp: Index_init_unfold[OF r])
  then have "ssh_command self =
           (case github_private_key w0 of
              None \<Rightarrow> None
            | Some key \<Rightarrow> if key = [] then None else Some (''ssh -i '' @ tmp_name w0))"
     "\<forall>key. github_private_key w0 = Some key \<and> key \<noteq> [] \<longrightarrow>
            (tmp_name w0, key) \<in> set (tempfiles w1)"
    by (auto simp: write_private_key_def split: option.splits)
  with fetch_latest_trace[OF assms(2)] show ?thesis by blast
qed

theorem fetch_ssh_command_witness:
  "(\<exists>self w1 r w' t.
      Index_init ''BaNaNaS'' (example_world\<lparr>github_private_key := Some ''KEY''\<rparr>) = (Inr self, w1) \<and>
      fetch_latest self ''main'' w1 = Some (r, w') \<and>
      ssh_command self = Some ''ssh -i /tmp/tmpkey'' \<and>
      (''/tmp/tmpkey'', ''KEY'') \<in> set (tempfiles w1) \<and>
      trace w' = trace w1 @ t \<and>
      Fetch ''https://github.com/OpenTTD/BaNaNaS'' (Some ''ssh -i /tmp/tmpkey'') \<in> set t) \<and>
   (\<exists>self w1 r w' t.
      Index_init ''BaNaNaS'' example_world = (Inr self, w1) \<and>
      fetch_latest self ''main'' w1 = Some (r, w') \<and>
      ssh_command self = None \<and>
      trace w' = trace w1 @ t \<and>
      Fetch ''https://github.com/OpenTTD/BaNaNaS'' None \<in> set t)"
proof -
  let ?url = "''https://github.com/OpenTTD/BaNaNaS''"
  let ?g = "example_repo\<lparr>remotes := (remotes example_repo)(''origin'' \<mapsto> ?url)\<rparr>"
  let ?wk = "example_world\<lparr>github_private_key := Some ''KEY''\<rparr>"
  have o: "remotes ?g ''origin'' = Some ?url" by simp
  have rk: "Repo_init (template ?wk) (disk ?wk) = Folder example_entries (Some example_repo)"
    by (simp add: example_world_simps Repo_init_def)
  obtain self w1 where i: "Index_init ''BaNaNaS'' ?wk = (Inr self, w1)"
    and d: "disk w1 = Folder example_entries (Some ?g)"
    by (simp add: Index_init_unfold[OF rk] example_world_simps)
  obtain r w' where f: "fetch_latest self ''main'' w1 = Some (r, w')"
    using fetch_latest_returns[of self "''main''" w1] by auto
  from fetch_ssh_command[OF i f] obtain t where
    s1: "ssh_command self =
           (case github_private_key ?wk of
              None \<Rightarrow> None
            | Some key \<Rightarrow> if key = [] then None else Some (''ssh -i '' @ tmp_name ?wk))"
    and s2: "\<forall>key. github_private_key ?wk = Some key \<and> key \<noteq> [] \<longrightarrow>
            (tmp_name ?wk, key) \<in> set (tempfiles w1)"
    and s3: "trace w' = trace w1 @ t"
    and s4: "\<forall>es g url. disk w1 = Folder es (Some g) \<and> remotes g ''origin'' = Some url \<longrightarrow>
               Fetch url (ssh_command self) \<in> set t"
    by blast
  have k1: "ssh_command self = Some ''ssh -i /tmp/tmpkey''"
    using s1 by (simp add: example_world_simps)
  have k2: "(''/tmp/tmpkey'', ''KEY'') \<in> set (tempfiles w1)"
    using s2 by (simp add: example_world_simps)
  have k3: "Fetch ?url (Some ''ssh -i /tmp/tmpkey'') \<in> set t"
    using s4 d o k1 by metis
  have rn: "Repo_init (template example_world) (disk example_world)
              = Folder example_entries (Some example_repo)"
    by (simp add: example_world_simps Repo_init_def)
  obtain self2 w2 where i2: "Index_init ''BaNaNaS'' example_world = (Inr self2, w2)"
    and d2: "disk w2 = Folder example_entries (Some ?g)"
    by (simp add: Index_init_unfold[OF rn] example_world_simps)
  obtain r2 w2' where f2: "fetch_latest self2 ''main'' w2 = Some (r2, w2')"
    using fetch_latest_returns[of self2 "''main''" w2] by auto
  from fetch_ssh_command[OF i2 f2] obtain t2 where
    n1: "ssh_command self2 =
           (case github_private_key example_world of
              None \<Rightarrow> None
            | Some key \<Rightarrow> if key = [] then None else Some (''ssh -i '' @ tmp_name example_world))"
    and n3: "trace w2' = trace w2 @ t2"
    and n4: "\<forall>es g url. disk w2 = Folder es (Some g) \<and> remotes g ''origin'' = Some url \<longrightarrow>
               Fetch url (ssh_command self2) \<in> set t2"
    by blast
  have m1: "ssh_command self2 = None"
    using n1 by (simp add: example_world_simps)
  have m3: "Fetch ?url None \<in> set t2"
    using n4 d2 o m1 by metis
  from i f k1 k2 s3 k3 i2 f2 m1 n3 m3 show ?thesis by blast
qed

subsection \<open>C8: the loop ends\<close>

text \<open>
  C8: a pass that reports a removal leaves fewer directories than it found, a pass that
  reports none leaves the folder as it was; the loop runs a pass, and runs again exactly
  when the pass reported a removal; and for every folder the loop returns, in a state in
  which a pass removes nothing.
\<close>

theorem remove_empty_folders_loop_terminates:
  "(case remove_empty_folders parent_folder d of
      (d', removed) \<Rightarrow> if removed then count_state d' < count_state d else d' = d) \<and>
   remove_empty_folders_loop parent_folder d =
     (case remove_empty_folders parent_folder d of
        (d', removed) \<Rightarrow>
          if removed then remove_empty_folders_loop parent_folder d' else Some d') \<and>
   (\<exists>d'. remove_empty_folders_loop parent_folder d = Some d' \<and>
         remove_empty_folders parent_folder d' = (d', False))"
  using pass_facts[where f=parent_folder and d=d] loop_returns[where f=parent_folder and d=d]
    remove_empty_folders_loop.simps[of parent_folder d]
  by blast

subsection \<open>C9: reload is the refresh, then the reload of the base class\<close>

text \<open>
  C9: when the refresh with the configured branch raises, \<^verbatim>\<open>reload\<close> raises the same
  exception in the world the refresh left, and the base reload has not run; when the
  refresh returns, \<^verbatim>\<open>reload\<close> is the base reload in the world the refresh left, with its
  value or its exception; and \<^verbatim>\<open>reload\<close> always returns or raises.
\<close>

theorem reload_refresh_then_base:
  "(\<forall>e w1. fetch_latest self (github_branch w) w = Some (Inl e, w1) \<longrightarrow>
       reload base_reload self application w = Some (Inl e, w1)) \<and>
   (\<forall>w1. fetch_latest self (github_branch w) w = Some (Inr (), w1) \<longrightarrow>
       reload base_reload self application w = Some (base_reload self application w1)) \<and>
   (\<exists>res. reload base_reload self application w = Some res)"
  using fetch_latest_returns[of self "github_branch w" w]
  by (auto simp: reload_def split: sum.splits)

theorem reload_refresh_then_base_witness:
  "(\<exists>w1. fetch_latest example_index (github_branch example_world) example_world = Some (Inr (), w1) \<and>
         reload (\<lambda>self application w. (Inr application, w)) example_index (1::nat) example_world
           = Some (Inr 1, w1)) \<and>
   (\<exists>w1. fetch_latest example_index (github_branch example_world)
            (example_world\<lparr>net := [Some GitCommandError]\<rparr>) = Some (Inl GitCommandError, w1) \<and>
         reload (\<lambda>self application w. (Inr application, w)) example_index (1::nat)
            (example_world\<lparr>net := [Some GitCommandError]\<rparr>) = Some (Inl GitCommandError, w1))"
proof -
  let ?base = "\<lambda>(self::Index) (application::nat) (w::world). (Inr application :: exn + nat, w)"
  obtain w1 where a: "fetch_latest example_index (github_branch example_world) example_world
      = Some (Inr (), w1)"
    using example_refresh by (auto simp: example_world_simps)
  have d: "disk (example_world\<lparr>net := [Some GitCommandError]\<rparr>) = Folder example_entries (Some example_repo)"
    by (simp add: example_world_simps)
  have o: "remotes example_repo ''origin'' = Some ''https://github.com/OpenTTD/BaNaNaS''"
    by (simp add: example_repo_def)
  obtain w2 where b: "fetch_latest example_index (github_branch example_world)
            (example_world\<lparr>net := [Some GitCommandError]\<rparr>) = Some (Inl GitCommandError, w2)"
    by (simp add: fetch_latest_unfold[OF d o] fetched_def)
  note t = reload_refresh_then_base[of example_index example_world ?base 1]
  note u = reload_refresh_then_base[of example_index "example_world\<lparr>net := [Some GitCommandError]\<rparr>" ?base 1]
  have a': "reload ?base example_index 1 example_world = Some (Inr 1, w1)"
    using t a by simp
  have b': "reload ?base example_index 1 (example_world\<lparr>net := [Some GitCommandError]\<rparr>)
      = Some (Inl GitCommandError, w2)"
    using u b by simp
  from a a' b b' show ?thesis by blast
qed

subsection \<open>C10: the branch is read when reload is called\<close>

text \<open>
  C10, for an object that the constructor made in a world \<open>w0\<close>, whatever the branch
  variable held then: a \<^verbatim>\<open>reload\<close> that returns in a world \<open>w\<close> has refreshed with the
  branch that the variable holds in \<open>w\<close>, and the one checkout of that refresh is of this
  branch.
\<close>

theorem reload_branch_at_call:
  assumes "Index_init base w0 = (Inr self, wi)"
    and "reload base_reload self application w = Some (Inr v, w')"
  shows "\<exists>w1 t. fetch_latest self (github_branch w) w = Some (Inr (), w1) \<and>
           base_reload self application w1 = (Inr v, w') \<and>
           trace w1 = trace w @ t @ [Checkout (github_branch w)] \<and>
           (\<forall>b. Checkout b \<notin> set t)"
proof -
  from assms(2) obtain w1 where
    f: "fetch_latest self (github_branch w) w = Some (Inr (), w1)"
    and b: "base_reload self application w1 = (Inr v, w')"
    by (auto simp: reload_def split: option.splits sum.splits prod.splits)
  from fetch_latest_trace[OF f] b f show ?thesis by auto
qed

theorem reload_branch_at_call_witness:
  "\<exists>self wi w' w1 t.
     Index_init ''BaNaNaS'' example_world = (Inr self, wi) \<and>
     github_branch wi = ''main'' \<and>
     reload (\<lambda>self application w. (Inr application, w)) self (1::nat) (wi\<lparr>github_branch := ''dev''\<rparr>)
       = Some (Inr 1, w') \<and>
     fetch_latest self ''dev'' (wi\<lparr>github_branch := ''dev''\<rparr>) = Some (Inr (), w1) \<and>
     trace w1 = trace wi @ t @ [Checkout ''dev'']"
proof -
  let ?base = "\<lambda>(self::Index) (application::nat) (w::world). (Inr application :: exn + nat, w)"
  let ?url = "''https://github.com/OpenTTD/BaNaNaS''"
  let ?g = "example_repo\<lparr>remotes := (remotes example_repo)(''origin'' \<mapsto> ?url)\<rparr>"
  let ?wi = "example_world\<lparr>disk := Folder example_entries (Some ?g), environment := Map.empty\<rparr>"
  have rn: "Repo_init (template example_world) (disk example_world)
              = Folder example_entries (Some example_repo)"
    by (simp add: example_world_simps Repo_init_def)
  have i: "Index_init ''BaNaNaS'' example_world = (Inr example_index, ?wi)"
    by (simp add: Index_init_unfold[OF rn] example_world_simps write_private_key_def example_index_def)
  have "\<exists>w1. fetch_latest example_index ''dev'' (?wi\<lparr>github_branch := ''dev''\<rparr>) = Some (Inr (), w1)"
    apply (simp add: eval_defs example_defs)
    apply (subst loop_step, simp add: eval_defs)
    apply (subst loop_step, simp add: eval_defs)
    apply (subst loop_stop, simp add: eval_defs)
    apply simp
    done
  then obtain w1 where f: "fetch_latest example_index ''dev'' (?wi\<lparr>github_branch := ''dev''\<rparr>)
      = Some (Inr (), w1)" by blast
  then have r: "reload ?base example_index 1 (?wi\<lparr>github_branch := ''dev''\<rparr>) = Some (Inr 1, w1)"
    by (simp add: reload_def)
  from reload_branch_at_call[OF i r] obtain w1' t where
    "fetch_latest example_index (github_branch (?wi\<lparr>github_branch := ''dev''\<rparr>)) (?wi\<lparr>github_branch := ''dev''\<rparr>)
       = Some (Inr (), w1')"
    "trace w1' = trace (?wi\<lparr>github_branch := ''dev''\<rparr>) @ t
        @ [Checkout (github_branch (?wi\<lparr>github_branch := ''dev''\<rparr>))]"
    by blast
  then have "fetch_latest example_index ''dev'' (?wi\<lparr>github_branch := ''dev''\<rparr>) = Some (Inr (), w1')"
    "trace w1' = trace ?wi @ t @ [Checkout ''dev'']"
    by simp_all
  moreover have "github_branch ?wi = ''main''" by (simp add: example_world_simps)
  ultimately show ?thesis using i r by blast
qed

end
